theory Spec2Isabelle
  imports Main
begin

section \<open>Python values\<close>

text \<open>
  The script \<^verbatim>\<open>scripts/ytmusic_search.py\<close> works on the untyped records that the
  search library returns: values as JSON has them. A dict is an association list with
  string keys (a repeated key stands for its first binding); JSON numbers are integers
  here, floating point numbers are left out.
\<close>

datatype pyval =
    PNone
  | PBool bool
  | PInt int
  | PStr string
  | PList "pyval list"
  | PDict "(string \<times> pyval) list"

text \<open>
  The exceptions the script can meet. \<open>CollaboratorError\<close> stands for whatever the
  search library raises, \<open>SystemError\<close> for the interpreter's failure on a reference
  to no object.
\<close>

datatype py_error =
  AttributeError | TypeError | KeyError | IndexError | CollaboratorError | SystemError

text \<open>Truth value testing, as \<^verbatim>\<open>if x\<close>, \<^verbatim>\<open>not x\<close> and \<^verbatim>\<open>x or y\<close> do it.\<close>

fun truthy :: "pyval \<Rightarrow> bool" where
  "truthy PNone = False"
| "truthy (PBool b) = b"
| "truthy (PInt i) = (i \<noteq> 0)"
| "truthy (PStr s) = (s \<noteq> [])"
| "truthy (PList xs) = (xs \<noteq> [])"
| "truthy (PDict kvs) = (kvs \<noteq> [])"

text \<open>Sequencing of computations that may raise.\<close>

definition py_bind :: "py_error + 'a \<Rightarrow> ('a \<Rightarrow> py_error + 'b) \<Rightarrow> py_error + 'b" where
  "py_bind m f = (case m of Inl e \<Rightarrow> Inl e | Inr x \<Rightarrow> f x)"

text \<open>
  \<^verbatim>\<open>x.get(k)\<close>: on a dict the value bound to \<open>k\<close>, \<^verbatim>\<open>None\<close> when the key is
  missing; any other value has no attribute \<^verbatim>\<open>get\<close>.
\<close>

fun py_get :: "pyval \<Rightarrow> string \<Rightarrow> py_error + pyval" where
  "py_get (PDict kvs) k = Inr (case map_of kvs k of None \<Rightarrow> PNone | Some v \<Rightarrow> v)"
| "py_get _ k = Inl AttributeError"

text \<open>
  \<^verbatim>\<open>a or b\<close> where \<open>b\<close> may raise: \<open>b\<close> is evaluated only when \<open>a\<close> is falsy.
\<close>

definition py_or :: "pyval \<Rightarrow> (py_error + pyval) \<Rightarrow> py_error + pyval" where
  "py_or a b = (if truthy a then Inr a else b)"

text \<open>
  \<^verbatim>\<open>for x in v\<close>: a list yields its elements, a string its characters, a dict its
  keys; the other values are not iterable.
\<close>

fun py_iter :: "pyval \<Rightarrow> py_error + pyval list" where
  "py_iter (PList xs) = Inr xs"
| "py_iter (PStr s) = Inr (map (\<lambda>c. PStr [c]) s)"
| "py_iter (PDict kvs) = Inr (map (\<lambda>kv. PStr (fst kv)) kvs)"
| "py_iter _ = Inl TypeError"

text \<open>
  \<^verbatim>\<open>v[-1]\<close>: the last element of a list, the last character of a string; a dict is
  looked up at the key \<open>-1\<close>, which no string-keyed dict has; the other values are not
  subscriptable.
\<close>

fun py_last :: "pyval \<Rightarrow> py_error + pyval" where
  "py_last (PList xs) = (if xs = [] then Inl IndexError else Inr (last xs))"
| "py_last (PStr s) = (if s = [] then Inl IndexError else Inr (PStr [last s]))"
| "py_last (PDict kvs) = Inl KeyError"
| "py_last _ = Inl TypeError"

text \<open>\<^verbatim>\<open>sep.join(xs)\<close>: every element has to be a string.\<close>

fun as_strs :: "pyval list \<Rightarrow> py_error + string list" where
  "as_strs [] = Inr []"
| "as_strs (PStr s # vs) = py_bind (as_strs vs) (\<lambda>ss. Inr (s # ss))"
| "as_strs (_ # vs) = Inl TypeError"

fun join_strings :: "string \<Rightarrow> string list \<Rightarrow> string" where
  "join_strings sep [] = []"
| "join_strings sep [s] = s"
| "join_strings sep (s # t # ss) = s @ sep @ join_strings sep (t # ss)"

definition str_join :: "string \<Rightarrow> pyval list \<Rightarrow> py_error + string" where
  "str_join sep vs = py_bind (as_strs vs) (\<lambda>ss. Inr (join_strings sep ss))"

section \<open>The normalizer\<close>

text \<open>
  Line 10, \<^verbatim>\<open>video_id = item.get("videoId") or item.get("videoId")\<close>.
\<close>

definition video_id_of :: "pyval \<Rightarrow> py_error + pyval" where
  "video_id_of item =
     py_bind (py_get item ''videoId'') (\<lambda>a. py_or a (py_get item ''videoId''))"

text \<open>
  Lines 15 to 17, the comprehension
  \<^verbatim>\<open>[artist.get("name") for artist in artists if artist.get("name")]\<close>
  over the elements that iterating \<open>artists\<close> yields.
\<close>

fun artist_names :: "pyval list \<Rightarrow> py_error + pyval list" where
  "artist_names [] = Inr []"
| "artist_names (artist # rest) =
     py_bind (py_get artist ''name'') (\<lambda>c.
       if truthy c
       then py_bind (py_get artist ''name'') (\<lambda>n.
              py_bind (artist_names rest) (\<lambda>ns. Inr (n # ns)))
       else artist_names rest)"

text \<open>
  Lines 14 to 19: the channel is the joined artist names, or, when that string is
  empty, \<^verbatim>\<open>item.get("artist") or item.get("author") or "YouTube Music"\<close>.
\<close>

definition channel_of :: "pyval \<Rightarrow> py_error + pyval" where
  "channel_of item =
     py_bind (py_get item ''artists'') (\<lambda>a.
     py_bind (py_or a (Inr (PList []))) (\<lambda>artists.
     py_bind (py_iter artists) (\<lambda>entries.
     py_bind (artist_names entries) (\<lambda>names.
     py_bind (str_join '', '' names) (\<lambda>channel.
       if \<not> truthy (PStr channel)
       then py_bind (py_get item ''artist'') (\<lambda>b.
              py_or b (py_bind (py_get item ''author'') (\<lambda>c.
                py_or c (Inr (PStr ''YouTube Music'')))))
       else Inr (PStr channel))))))"

text \<open>Lines 20 to 23: the url of the last thumbnail, \<^verbatim>\<open>None\<close> without thumbnails.\<close>

definition thumbnail_url_of :: "pyval \<Rightarrow> py_error + pyval" where
  "thumbnail_url_of item =
     py_bind (py_get item ''thumbnails'') (\<lambda>t.
     py_bind (py_or t (Inr (PList []))) (\<lambda>thumbnails.
       if truthy thumbnails
       then py_bind (py_last thumbnails) (\<lambda>l. py_get l ''url'')
       else Inr PNone))"

text \<open>
  One pass of the loop body, lines 10 to 31: \<open>Inr None\<close> is \<^verbatim>\<open>continue\<close>,
  \<open>Inr (Some r)\<close> appends \<open>r\<close> to the results.
\<close>

definition normalize_item :: "pyval \<Rightarrow> py_error + pyval option" where
  "normalize_item item =
     py_bind (video_id_of item) (\<lambda>video_id.
       if \<not> truthy video_id then Inr None
       else
         py_bind (py_get item ''title'') (\<lambda>t.
         py_bind (py_or t (Inr (PStr ''Unknown title''))) (\<lambda>title.
         py_bind (channel_of item) (\<lambda>channel.
         py_bind (thumbnail_url_of item) (\<lambda>thumbnail_url.
           Inr (Some (PDict
             [(''id'', video_id),
              (''title'', title),
              (''channel'', channel),
              (''thumbnailUrl'', thumbnail_url)])))))))"

text \<open>The loop of lines 8 to 32, with the list \<open>results\<close> as accumulator.\<close>

fun normalize_loop :: "pyval list \<Rightarrow> pyval list \<Rightarrow> py_error + pyval list" where
  "normalize_loop results [] = Inr results"
| "normalize_loop results (item # items) =
     (case normalize_item item of
        Inl e \<Rightarrow> Inl e
      | Inr None \<Rightarrow> normalize_loop results items
      | Inr (Some r) \<Rightarrow> normalize_loop (results @ [r]) items)"

definition normalize_results :: "pyval list \<Rightarrow> py_error + pyval list" where
  "normalize_results items = normalize_loop [] items"

section \<open>The normalizer with a single read of the identifier\<close>

text \<open>
  The specification reads the identifier once: \<^verbatim>\<open>video_id = item.get("videoId")\<close>.
  The rest of the function is the source's, unchanged.
\<close>

definition video_id_single_read :: "pyval \<Rightarrow> py_error + pyval" where
  "video_id_single_read item = py_get item ''videoId''"

definition normalize_item_single_read :: "pyval \<Rightarrow> py_error + pyval option" where
  "normalize_item_single_read item =
     py_bind (video_id_single_read item) (\<lambda>video_id.
       if \<not> truthy video_id then Inr None
       else
         py_bind (py_get item ''title'') (\<lambda>t.
         py_bind (py_or t (Inr (PStr ''Unknown title''))) (\<lambda>title.
         py_bind (channel_of item) (\<lambda>channel.
         py_bind (thumbnail_url_of item) (\<lambda>thumbnail_url.
           Inr (Some (PDict
             [(''id'', video_id),
              (''title'', title),
              (''channel'', channel),
              (''thumbnailUrl'', thumbnail_url)])))))))"

fun normalize_loop_single_read :: "pyval list \<Rightarrow> pyval list \<Rightarrow> py_error + pyval list" where
  "normalize_loop_single_read results [] = Inr results"
| "normalize_loop_single_read results (item # items) =
     (case normalize_item_single_read item of
        Inl e \<Rightarrow> Inl e
      | Inr None \<Rightarrow> normalize_loop_single_read results items
      | Inr (Some r) \<Rightarrow> normalize_loop_single_read (results @ [r]) items)"

definition normalize_results_single_read :: "pyval list \<Rightarrow> py_error + pyval list" where
  "normalize_results_single_read items = normalize_loop_single_read [] items"

section \<open>The driver\<close>

text \<open>
  \<^verbatim>\<open>main\<close> reads \<^verbatim>\<open>sys.argv\<close>, calls the search library and prints. The library
  is a parameter: \<open>YTMusic\<close> builds a client from the headers path, \<open>search\<close> is the
  client's method with its arguments \<open>query\<close>, \<open>filter\<close> and \<open>limit\<close>; both may raise.
  A run is what the process shows: the JSON documents given to
  \<^verbatim>\<open>print(json.dumps(...))\<close> in order, the calls made to the library, and how it ended.
\<close>

datatype call = YTMusic_call string | search_call string string int

datatype ending = Returned | SystemExit int | Uncaught py_error

record run =
  stdout :: "pyval list"
  calls :: "call list"
  ending :: ending

text \<open>
  The status of the process: 0 when \<^verbatim>\<open>main\<close> returns, the argument of
  \<^verbatim>\<open>sys.exit\<close>, 1 for an uncaught exception.
\<close>

fun exit_status :: "ending \<Rightarrow> int" where
  "exit_status Returned = 0"
| "exit_status (SystemExit n) = n"
| "exit_status (Uncaught e) = 1"

definition main ::
  "(string \<Rightarrow> py_error + 'c) \<Rightarrow> ('c \<Rightarrow> string \<Rightarrow> string \<Rightarrow> int \<Rightarrow> py_error + pyval list) \<Rightarrow>
     string list \<Rightarrow> run" where
  "main YTMusic search argv =
     (if length argv < 3
      then \<lparr>stdout = [PDict [(''error'',
                PStr ''Usage: ytmusic_search.py <query> <headers_path>'')]],
            calls = [],
            ending = SystemExit 1\<rparr>
      else
        let query = argv ! 1;
            headers_path = argv ! 2
        in case YTMusic headers_path of
             Inl e \<Rightarrow>
               \<lparr>stdout = [], calls = [YTMusic_call headers_path], ending = Uncaught e\<rparr>
           | Inr ytmusic \<Rightarrow>
               (case search ytmusic query ''songs'' 8 of
                  Inl e \<Rightarrow>
                    \<lparr>stdout = [],
                     calls = [YTMusic_call headers_path, search_call query ''songs'' 8],
                     ending = Uncaught e\<rparr>
                | Inr items \<Rightarrow>
                    (case normalize_results items of
                       Inl e \<Rightarrow>
                         \<lparr>stdout = [],
                          calls = [YTMusic_call headers_path, search_call query ''songs'' 8],
                          ending = Uncaught e\<rparr>
                     | Inr results \<Rightarrow>
                         \<lparr>stdout = [PDict [(''results'', PList results)]],
                          calls = [YTMusic_call headers_path, search_call query ''songs'' 8],
                          ending = Returned\<rparr>)))"

section \<open>Vocabulary of the properties\<close>

text \<open>
  \<open>field d k\<close> is what \<^verbatim>\<open>d.get(k)\<close> reads from a dict: the value of the key,
  \<^verbatim>\<open>None\<close> for a missing key, so that a key bound to \<^verbatim>\<open>None\<close> reads as a
  missing one. A field is present and non-empty when that value is truthy: for a string
  field, when the key is there and the string is not \<^verbatim>\<open>""\<close>. The code tests
  every field it reads that way, so the properties do.
\<close>

definition field :: "pyval \<Rightarrow> string \<Rightarrow> pyval" where
  "field d k = (case py_get d k of Inl e \<Rightarrow> PNone | Inr v \<Rightarrow> v)"

definition has_video_id :: "pyval \<Rightarrow> bool" where
  "has_video_id item = truthy (field item ''videoId'')"

fun is_dict :: "pyval \<Rightarrow> bool" where
  "is_dict (PDict kvs) = True"
| "is_dict _ = False"

fun is_list :: "pyval \<Rightarrow> bool" where
  "is_list (PList xs) = True"
| "is_list _ = False"

fun is_str :: "pyval \<Rightarrow> bool" where
  "is_str (PStr s) = True"
| "is_str _ = False"

fun str_or_none :: "pyval \<Rightarrow> bool" where
  "str_or_none PNone = True"
| "str_or_none (PStr s) = True"
| "str_or_none _ = False"

fun nonempty_str :: "pyval \<Rightarrow> bool" where
  "nonempty_str (PStr s) = (s \<noteq> [])"
| "nonempty_str _ = False"

text \<open>The elements of a sequence field, none when the field is no list.\<close>

fun entries :: "pyval \<Rightarrow> pyval list" where
  "entries (PList xs) = xs"
| "entries _ = []"

fun str_of :: "pyval \<Rightarrow> string" where
  "str_of (PStr s) = s"
| "str_of _ = []"

definition thumbnails_of :: "pyval \<Rightarrow> pyval list" where
  "thumbnails_of item = entries (field item ''thumbnails'')"

text \<open>
  The raw record of the data model: a mapping whose \<open>artists\<close>, when there are any, is
  a sequence of mappings with a string for each non-empty \<open>name\<close>, and whose
  \<open>thumbnails\<close>, when there are any, is a sequence of mappings. The other fields are
  free.
\<close>

definition artist_entry :: "pyval \<Rightarrow> bool" where
  "artist_entry e = (is_dict e \<and> (truthy (field e ''name'') \<longrightarrow> is_str (field e ''name'')))"

definition raw_record :: "pyval \<Rightarrow> bool" where
  "raw_record item =
     (is_dict item \<and>
      (truthy (field item ''artists'') \<longrightarrow>
         is_list (field item ''artists'') \<and>
         list_all artist_entry (entries (field item ''artists''))) \<and>
      (truthy (field item ''thumbnails'') \<longrightarrow>
         is_list (field item ''thumbnails'') \<and>
         list_all is_dict (entries (field item ''thumbnails''))))"


text \<open>
  The channel as the specification words it: the non-empty names of the artists joined
  with a comma and a space; when that is empty the \<open>artist\<close> field, then the
  \<open>author\<close> field, then the literal. For a record that is emitted, \<open>artists\<close> is
  empty or a list of mappings whose non-empty names are strings
  (\<open>channel_of_artists_shape\<close> below), so that \<open>entries\<close> and \<open>str_of\<close> lose
  nothing there.
\<close>

definition nonempty_names :: "pyval \<Rightarrow> string list" where
  "nonempty_names artists =
     filter (\<lambda>s. s \<noteq> []) (map (\<lambda>e. str_of (field e ''name'')) (entries artists))"

definition channel_fallback :: "pyval \<Rightarrow> pyval" where
  "channel_fallback item =
     (let joined = join_strings '', '' (nonempty_names (field item ''artists'')) in
      if joined \<noteq> [] then PStr joined
      else if truthy (field item ''artist'') then field item ''artist''
      else if truthy (field item ''author'') then field item ''author''
      else PStr ''YouTube Music'')"

text \<open>
  A record with string-typed fields: every field the normalizer reads is a string where
  it is present. A normalized record has the four keys, three non-empty strings and a
  thumbnail url that is a string or \<^verbatim>\<open>None\<close>.
\<close>

definition string_typed :: "pyval \<Rightarrow> bool" where
  "string_typed item =
     (list_all (\<lambda>k. str_or_none (field item k)) [''videoId'', ''title'', ''artist'', ''author''] \<and>
      list_all (\<lambda>e. str_or_none (field e ''name'')) (entries (field item ''artists'')) \<and>
      list_all (\<lambda>t. str_or_none (field t ''url'')) (thumbnails_of item))"

fun normalized_record :: "pyval \<Rightarrow> bool" where
  "normalized_record (PDict kvs) =
     (map fst kvs = [''id'', ''title'', ''channel'', ''thumbnailUrl''] \<and>
      nonempty_str (field (PDict kvs) ''id'') \<and>
      nonempty_str (field (PDict kvs) ''title'') \<and>
      nonempty_str (field (PDict kvs) ''channel'') \<and>
      str_or_none (field (PDict kvs) ''thumbnailUrl''))"
| "normalized_record _ = False"

section \<open>Example records\<close>

definition song_full :: pyval where
  "song_full = PDict
     [(''videoId'', PStr ''a1''),
      (''title'', PStr ''Song''),
      (''artists'', PList [PDict [(''name'', PStr ''Artist X''), (''id'', PStr ''UC1'')],
                          PDict [(''id'', PStr ''UC0'')],
                          PDict [(''name'', PStr ''Artist Y'')]]),
      (''artist'', PStr ''Ignored''),
      (''thumbnails'', PList [PDict [(''url'', PStr ''low.jpg'')],
                             PDict [(''url'', PStr ''high.jpg'')]])]"

definition song_no_id :: pyval where
  "song_no_id = PDict [(''title'', PStr ''Lost''), (''artist'', PStr ''Nobody'')]"

definition song_empty_id :: pyval where
  "song_empty_id = PDict [(''videoId'', PStr []), (''title'', PStr ''Blank'')]"

definition song_bare :: pyval where
  "song_bare = PDict
     [(''videoId'', PStr ''a4''),
      (''title'', PNone),
      (''artists'', PList []),
      (''author'', PStr ''Channel Name''),
      (''thumbnails'', PList [PDict [(''url'', PStr ''low.jpg'')],
                             PDict [(''width'', PInt 120)]])]"

definition song_solo :: pyval where
  "song_solo = PDict
     [(''videoId'', PStr ''a2''),
      (''title'', PStr []),
      (''artist'', PStr ''Solo Artist''),
      (''author'', PStr ''Ignored''),
      (''thumbnails'', PList [PDict [(''url'', PNone)]])]"

definition song_plain :: pyval where
  "song_plain = PDict [(''videoId'', PStr ''a3'')]"

definition song_zero_title :: pyval where
  "song_zero_title = PDict [(''videoId'', PStr ''w''), (''title'', PInt 0)]"

section \<open>The normalizer on an explicit store\<close>

text \<open>
  Lists and dicts are objects of a store; a value is \<^verbatim>\<open>None\<close>, a boolean, an
  integer, a string, or a reference to an object. The store is the list of the objects
  made so far, an address is a position in it, and a new object goes to its end. A
  program takes the store and gives back its outcome and the store it leaves, or
  nothing when it does not return.
\<close>

type_synonym addr = nat

datatype hval = VNone | VBool bool | VInt int | VStr string | VRef addr

datatype hobj = HList "hval list" | HDict "(string \<times> hval) list"

type_synonym heap = "hobj list"

type_synonym 'a prog = "heap \<Rightarrow> ((py_error + 'a) \<times> heap) option"

definition ret :: "'a \<Rightarrow> 'a prog" where
  "ret x h = Some (Inr x, h)"

definition bnd :: "'a prog \<Rightarrow> ('a \<Rightarrow> 'b prog) \<Rightarrow> 'b prog" where
  "bnd m f h =
     (case m h of
        None \<Rightarrow> None
      | Some (Inl e, h') \<Rightarrow> Some (Inl e, h')
      | Some (Inr x, h') \<Rightarrow> f x h')"

text \<open>A read of the store, and the two writes: a new object, and \<^verbatim>\<open>xs.append(v)\<close>.\<close>

definition rd :: "(heap \<Rightarrow> py_error + 'a) \<Rightarrow> 'a prog" where
  "rd f h = Some (f h, h)"

definition alloc :: "hobj \<Rightarrow> addr prog" where
  "alloc obj h = Some (Inr (length h), h @ [obj])"

definition deref :: "heap \<Rightarrow> addr \<Rightarrow> py_error + hobj" where
  "deref h a = (if a < length h then Inr (h ! a) else Inl SystemError)"

definition append_h :: "addr \<Rightarrow> hval \<Rightarrow> unit prog" where
  "append_h a v h =
     (case deref h a of
        Inl e \<Rightarrow> Some (Inl e, h)
      | Inr (HList xs) \<Rightarrow> Some (Inr (), h[a := HList (xs @ [v])])
      | Inr (HDict kvs) \<Rightarrow> Some (Inl AttributeError, h))"

text \<open>The operations of the first section, reading the objects from the store.\<close>

fun truthy_h :: "hval \<Rightarrow> heap \<Rightarrow> py_error + bool" where
  "truthy_h VNone h = Inr False"
| "truthy_h (VBool b) h = Inr b"
| "truthy_h (VInt i) h = Inr (i \<noteq> 0)"
| "truthy_h (VStr s) h = Inr (s \<noteq> [])"
| "truthy_h (VRef a) h =
     py_bind (deref h a) (\<lambda>obj.
       case obj of HList xs \<Rightarrow> Inr (xs \<noteq> []) | HDict kvs \<Rightarrow> Inr (kvs \<noteq> []))"

fun get_h :: "hval \<Rightarrow> string \<Rightarrow> heap \<Rightarrow> py_error + hval" where
  "get_h (VRef a) k h =
     py_bind (deref h a) (\<lambda>obj.
       case obj of
         HDict kvs \<Rightarrow> Inr (case map_of kvs k of None \<Rightarrow> VNone | Some v \<Rightarrow> v)
       | HList xs \<Rightarrow> Inl AttributeError)"
| "get_h _ k h = Inl AttributeError"

definition or_h :: "hval \<Rightarrow> hval prog \<Rightarrow> hval prog" where
  "or_h a b = bnd (rd (truthy_h a)) (\<lambda>t. if t then ret a else b)"

text \<open>
  A \<^verbatim>\<open>for\<close> loop asks the iterated value for its element at the next position each
  time round, in the store as it is then: \<open>next_h v i h\<close> is that element, \<open>None\<close> past
  the end.
\<close>

fun next_h :: "hval \<Rightarrow> nat \<Rightarrow> heap \<Rightarrow> py_error + hval option" where
  "next_h (VStr s) i h = Inr (if i < length s then Some (VStr [s ! i]) else None)"
| "next_h (VRef a) i h =
     py_bind (deref h a) (\<lambda>obj.
       case obj of
         HList xs \<Rightarrow> Inr (if i < length xs then Some (xs ! i) else None)
       | HDict kvs \<Rightarrow> Inr (if i < length kvs then Some (VStr (fst (kvs ! i))) else None))"
| "next_h _ i h = Inl TypeError"

fun last_h :: "hval \<Rightarrow> heap \<Rightarrow> py_error + hval" where
  "last_h (VStr s) h = (if s = [] then Inl IndexError else Inr (VStr [last s]))"
| "last_h (VRef a) h =
     py_bind (deref h a) (\<lambda>obj.
       case obj of
         HList xs \<Rightarrow> if xs = [] then Inl IndexError else Inr (last xs)
       | HDict kvs \<Rightarrow> Inl KeyError)"
| "last_h _ h = Inl TypeError"

fun strs_h :: "hval list \<Rightarrow> py_error + string list" where
  "strs_h [] = Inr []"
| "strs_h (VStr s # vs) = py_bind (strs_h vs) (\<lambda>ss. Inr (s # ss))"
| "strs_h (_ # vs) = Inl TypeError"

definition join_h :: "string \<Rightarrow> addr \<Rightarrow> heap \<Rightarrow> py_error + string" where
  "join_h sep a h =
     py_bind (deref h a) (\<lambda>obj.
       case obj of
         HList xs \<Rightarrow> py_bind (strs_h xs) (\<lambda>ss. Inr (join_strings sep ss))
       | HDict kvs \<Rightarrow> Inr (join_strings sep (map fst kvs)))"

text \<open>
  The comprehension of lines 15 to 17 appends to a new list \<open>names\<close>, one pass for each
  element of \<open>artists\<close>.
\<close>

definition names_step :: "hval \<Rightarrow> addr \<Rightarrow> unit prog" where
  "names_step artist names =
     bnd (rd (get_h artist ''name'')) (\<lambda>c.
     bnd (rd (truthy_h c)) (\<lambda>t.
       if t then bnd (rd (get_h artist ''name'')) (\<lambda>n. append_h names n)
       else ret ()))"

partial_function (option) names_loop ::
  "hval \<Rightarrow> nat \<Rightarrow> addr \<Rightarrow> heap \<Rightarrow> ((py_error + unit) \<times> heap) option" where
  "names_loop artists i names h =
     (case next_h artists i h of
        Inl e \<Rightarrow> Some (Inl e, h)
      | Inr None \<Rightarrow> Some (Inr (), h)
      | Inr (Some artist) \<Rightarrow>
          (case names_step artist names h of
             None \<Rightarrow> None
           | Some (Inl e, h') \<Rightarrow> Some (Inl e, h')
           | Some (Inr u, h') \<Rightarrow> names_loop artists (Suc i) names h'))"

text \<open>Lines 14 to 19; both \<^verbatim>\<open>[]\<close> of the source are new objects.\<close>

definition channel_h :: "hval \<Rightarrow> hval prog" where
  "channel_h item =
     bnd (rd (get_h item ''artists'')) (\<lambda>a.
     bnd (or_h a (bnd (alloc (HList [])) (\<lambda>l. ret (VRef l)))) (\<lambda>artists.
     bnd (alloc (HList [])) (\<lambda>names.
     bnd (names_loop artists 0 names) (\<lambda>u.
     bnd (rd (join_h '', '' names)) (\<lambda>channel.
     bnd (rd (truthy_h (VStr channel))) (\<lambda>t.
       if \<not> t
       then bnd (rd (get_h item ''artist'')) (\<lambda>b.
              or_h b (bnd (rd (get_h item ''author'')) (\<lambda>c.
                or_h c (ret (VStr ''YouTube Music'')))))
       else ret (VStr channel)))))))"

text \<open>Lines 20 to 23.\<close>

definition thumbnail_url_h :: "hval \<Rightarrow> hval prog" where
  "thumbnail_url_h item =
     bnd (rd (get_h item ''thumbnails'')) (\<lambda>t.
     bnd (or_h t (bnd (alloc (HList [])) (\<lambda>l. ret (VRef l)))) (\<lambda>thumbnails.
     bnd (rd (truthy_h thumbnails)) (\<lambda>b.
       if b then bnd (rd (last_h thumbnails)) (\<lambda>l. rd (get_h l ''url''))
       else ret VNone)))"

text \<open>
  The loop body, lines 10 to 31: the record is a new dict, appended to the list at
  \<open>results\<close>; \<^verbatim>\<open>continue\<close> leaves the store as it is.
\<close>

definition body_h :: "hval \<Rightarrow> addr \<Rightarrow> unit prog" where
  "body_h item results =
     bnd (rd (get_h item ''videoId'')) (\<lambda>a.
     bnd (or_h a (rd (get_h item ''videoId''))) (\<lambda>video_id.
     bnd (rd (truthy_h video_id)) (\<lambda>t.
       if \<not> t then ret ()
       else
         bnd (rd (get_h item ''title'')) (\<lambda>t.
         bnd (or_h t (ret (VStr ''Unknown title''))) (\<lambda>title.
         bnd (channel_h item) (\<lambda>channel.
         bnd (thumbnail_url_h item) (\<lambda>thumbnail_url.
         bnd (alloc (HDict
               [(''id'', video_id),
                (''title'', title),
                (''channel'', channel),
                (''thumbnailUrl'', thumbnail_url)])) (\<lambda>d.
           append_h results (VRef d)))))))))"

partial_function (option) loop_h ::
  "hval \<Rightarrow> nat \<Rightarrow> addr \<Rightarrow> heap \<Rightarrow> ((py_error + unit) \<times> heap) option" where
  "loop_h items i results h =
     (case next_h items i h of
        Inl e \<Rightarrow> Some (Inl e, h)
      | Inr None \<Rightarrow> Some (Inr (), h)
      | Inr (Some item) \<Rightarrow>
          (case body_h item results h of
             None \<Rightarrow> None
           | Some (Inl e, h') \<Rightarrow> Some (Inl e, h')
           | Some (Inr u, h') \<Rightarrow> loop_h items (Suc i) results h'))"

text \<open>Lines 7 to 32: \<^verbatim>\<open>results = []\<close>, the loop, \<^verbatim>\<open>return results\<close>.\<close>

definition normalize_results_h :: "hval \<Rightarrow> hval prog" where
  "normalize_results_h items =
     bnd (alloc (HList [])) (\<lambda>results.
     bnd (loop_h items 0 results) (\<lambda>u.
       ret (VRef results)))"

declare names_loop.simps [code] loop_h.simps [code]

subsection \<open>Stores and the values they hold\<close>

text \<open>
  \<open>denotes h v p\<close>: in the store \<open>h\<close> the value \<open>v\<close> is the JSON value \<open>p\<close>; every
  reference met on the way is to an object of \<open>h\<close>, and the object graph under \<open>v\<close> is
  a tree.
\<close>

inductive denotes :: "heap \<Rightarrow> hval \<Rightarrow> pyval \<Rightarrow> bool" for h where
  denotes_None: "denotes h VNone PNone"
| denotes_Bool: "denotes h (VBool b) (PBool b)"
| denotes_Int: "denotes h (VInt i) (PInt i)"
| denotes_Str: "denotes h (VStr s) (PStr s)"
| denotes_List:
    "a < length h \<Longrightarrow> h ! a = HList vs \<Longrightarrow> list_all2 (denotes h) vs ps \<Longrightarrow>
       denotes h (VRef a) (PList ps)"
| denotes_Dict:
    "a < length h \<Longrightarrow> h ! a = HDict kvs \<Longrightarrow>
     list_all2 (\<lambda>kv kp. fst kv = fst kp \<and> denotes h (snd kv) (snd kp)) kvs kps \<Longrightarrow>
       denotes h (VRef a) (PDict kps)"

code_pred denotes .

text \<open>
  \<open>extends h h'\<close>: every object of \<open>h\<close> is in \<open>h'\<close>, at its address and unchanged;
  \<open>stable_except r h h'\<close> lets the object at \<open>r\<close> change.
\<close>

definition extends :: "heap \<Rightarrow> heap \<Rightarrow> bool" where
  "extends h h' \<longleftrightarrow> length h \<le> length h' \<and> take (length h) h' = h"

definition stable_except :: "addr \<Rightarrow> heap \<Rightarrow> heap \<Rightarrow> bool" where
  "stable_except r h h' \<longleftrightarrow>
     length h \<le> length h' \<and> (\<forall>a<length h. a \<noteq> r \<longrightarrow> h' ! a = h ! a)"

text \<open>
  \<open>sim F Q m c h\<close>: run in \<open>h\<close>, the program \<open>m\<close> returns; \<open>F\<close> relates \<open>h\<close> to the
  store it leaves; it raises what the computation on values \<open>c\<close> raises, or returns a
  result that \<open>Q\<close> relates to the result of \<open>c\<close>.
\<close>

definition sim ::
  "(heap \<Rightarrow> heap \<Rightarrow> bool) \<Rightarrow> (heap \<Rightarrow> 'a \<Rightarrow> 'b \<Rightarrow> bool) \<Rightarrow> 'a prog \<Rightarrow> py_error + 'b \<Rightarrow> heap \<Rightarrow> bool" where
  "sim F Q m c h \<longleftrightarrow>
     (\<exists>out h'. m h = Some (out, h') \<and> F h h' \<and>
        (case out of Inl e \<Rightarrow> c = Inl e | Inr x \<Rightarrow> (\<exists>y. c = Inr y \<and> Q h' x y)))"

text \<open>
  The dict at \<open>d\<close> is the record \<open>r\<close>, with fields that are values of the store \<open>hb\<close>;
  what a pass of the loop body does to the list at \<open>res\<close>; an element of that list.
\<close>

definition record_at :: "heap \<Rightarrow> heap \<Rightarrow> addr \<Rightarrow> pyval \<Rightarrow> bool" where
  "record_at hb h d r \<longleftrightarrow>
     d < length h \<and>
     (\<exists>kvs kps. h ! d = HDict kvs \<and> r = PDict kps \<and>
        list_all2 (\<lambda>kv kp. fst kv = fst kp \<and> denotes hb (snd kv) (snd kp)) kvs kps)"

definition appended :: "heap \<Rightarrow> addr \<Rightarrow> hval list \<Rightarrow> heap \<Rightarrow> unit \<Rightarrow> pyval option \<Rightarrow> bool" where
  "appended hb res ds h' u ropt =
     (case ropt of
        None \<Rightarrow> h' ! res = HList ds
      | Some r \<Rightarrow> (\<exists>d. h' ! res = HList (ds @ [VRef d]) \<and> d \<noteq> res \<and> record_at hb h' d r))"

definition emitted_at :: "heap \<Rightarrow> addr \<Rightarrow> heap \<Rightarrow> hval \<Rightarrow> pyval \<Rightarrow> bool" where
  "emitted_at hb res h dv r \<longleftrightarrow> (\<exists>d. dv = VRef d \<and> d \<noteq> res \<and> record_at hb h d r)"

text \<open>A store with the list of \<open>song_plain\<close>, \<open>song_no_id\<close> and \<open>song_solo\<close> at address 0.\<close>

definition heap_songs :: heap where
  "heap_songs =
     [HList [VRef 1, VRef 2, VRef 3],
      HDict [(''videoId'', VStr ''a3'')],
      HDict [(''title'', VStr ''Lost''), (''artist'', VStr ''Nobody'')],
      HDict [(''videoId'', VStr ''a2''), (''title'', VStr []), (''artist'', VStr ''Solo Artist''),
             (''author'', VStr ''Ignored''), (''thumbnails'', VRef 4)],
      HList [VRef 5],
      HDict [(''url'', VNone)]]"

section \<open>Basic facts about the operations\<close>

lemma py_bind_Inr [simp]: "py_bind (Inr x) f = f x"
  by (simp add: py_bind_def)

lemma py_bind_Inl [simp]: "py_bind (Inl e) f = Inl e"
  by (simp add: py_bind_def)

lemma py_bind_Inr_iff: "py_bind m f = Inr y \<longleftrightarrow> (\<exists>x. m = Inr x \<and> f x = Inr y)"
  by (cases m) simp_all

lemma py_get_Inr_iff: "py_get d k = Inr v \<longleftrightarrow> is_dict d \<and> v = field d k"
  by (cases d) (auto simp: field_def)

lemma py_get_dict: "is_dict d \<Longrightarrow> py_get d k = Inr (field d k)"
  by (simp add: py_get_Inr_iff)

lemma video_id_of_Inr:
  "video_id_of item = Inr v \<longleftrightarrow> is_dict item \<and> v = field item ''videoId''"
  by (cases item) (auto simp: video_id_of_def py_or_def field_def)

lemma truthy_nonempty_str: "truthy v \<Longrightarrow> str_or_none v \<Longrightarrow> nonempty_str v"
  by (cases v) auto


lemma list_all2_list_all:
  "list_all2 (\<lambda>x y. P x \<longrightarrow> Q y) xs ys \<Longrightarrow> list_all P xs \<Longrightarrow> list_all Q ys"
  by (induction rule: list_all2_induct) auto

section \<open>What one pass of the loop does\<close>

lemma normalize_item_None:
  "normalize_item item = Inr None \<longleftrightarrow> is_dict item \<and> \<not> has_video_id item"
  by (auto simp: normalize_item_def py_bind_Inr_iff video_id_of_Inr has_video_id_def
      split: if_splits)

lemma normalize_item_Some:
  "normalize_item item = Inr (Some r) \<longleftrightarrow>
     is_dict item \<and> has_video_id item \<and>
     (\<exists>channel thumbnail_url.
        channel_of item = Inr channel \<and> thumbnail_url_of item = Inr thumbnail_url \<and>
        r = PDict [(''id'', field item ''videoId''),
                   (''title'', if truthy (field item ''title'') then field item ''title''
                               else PStr ''Unknown title''),
                   (''channel'', channel),
                   (''thumbnailUrl'', thumbnail_url)])"
  by (auto simp: normalize_item_def py_bind_Inr_iff video_id_of_Inr has_video_id_def
      py_or_def py_get_Inr_iff split: if_splits)

subsection \<open>The channel\<close>

lemma as_strs_Inr: "as_strs vs = Inr ss \<longleftrightarrow> vs = map PStr ss"
proof (induction vs arbitrary: ss rule: as_strs.induct)
  case 1
  then show ?case by auto
next
  case (2 s vs)
  then show ?case by (cases ss) (auto simp: py_bind_Inr_iff)
qed auto

lemma artist_names_Inr:
  "artist_names es = Inr ns \<Longrightarrow>
     list_all is_dict es \<and> ns = filter truthy (map (\<lambda>e. field e ''name'') es)"
proof (induction es arbitrary: ns)
  case Nil
  then show ?case by simp
next
  case (Cons e es)
  then show ?case
    by (auto simp: py_bind_Inr_iff py_get_Inr_iff split: if_splits)
qed

lemma strs_nonempty_names:
  "filter truthy (map (\<lambda>e. field e ''name'') es) = map PStr ss \<Longrightarrow>
     ss = filter (\<lambda>s. s \<noteq> []) (map (\<lambda>e. str_of (field e ''name'')) es)"
proof (induction es arbitrary: ss)
  case Nil
  then show ?case by simp
next
  case (Cons e es)
  show ?case
  proof (cases "truthy (field e ''name'')")
    case True
    with Cons.prems obtain s ss' where ss: "ss = s # ss'" and s: "field e ''name'' = PStr s"
      and rest: "filter truthy (map (\<lambda>e. field e ''name'') es) = map PStr ss'"
      by (cases ss) auto
    from True s have "s \<noteq> []" by simp
    with Cons.IH [OF rest] ss s show ?thesis by simp
  next
    case False
    then have "str_of (field e ''name'') = []"
      by (cases "field e ''name''") auto
    with False Cons show ?thesis by simp
  qed
qed

lemma py_iter_dicts:
  assumes "py_iter v = Inr es" and "list_all is_dict es"
  shows "es = [] \<or> v = PList es"
proof (cases v)
  case (PStr s)
  with assms show ?thesis by (cases s) auto
next
  case (PDict kvs)
  with assms show ?thesis by (cases kvs) auto
qed (use assms in auto)

lemma channel_of_Inr:
  assumes "channel_of item = Inr ch"
  shows "ch = channel_fallback item"
proof -
  from assms obtain artists es ns joined where
    d: "is_dict item"
    and a: "py_or (field item ''artists'') (Inr (PList [])) = Inr artists"
    and it: "py_iter artists = Inr es"
    and ns: "artist_names es = Inr ns"
    and j: "str_join '', '' ns = Inr joined"
    and ch: "(if \<not> truthy (PStr joined)
              then py_bind (py_get item ''artist'') (\<lambda>b.
                     py_or b (py_bind (py_get item ''author'') (\<lambda>c.
                       py_or c (Inr (PStr ''YouTube Music'')))))
              else Inr (PStr joined)) = Inr ch"
    by (auto simp: channel_of_def py_bind_Inr_iff py_get_Inr_iff)
  from ns have dicts: "list_all is_dict es"
    and ns_eq: "ns = filter truthy (map (\<lambda>e. field e ''name'') es)"
    by (simp_all add: artist_names_Inr)
  from j obtain ss where ss: "ns = map PStr ss" and joined: "joined = join_strings '', '' ss"
    by (auto simp: str_join_def py_bind_Inr_iff as_strs_Inr)
  from ns_eq ss have ss_eq:
    "ss = filter (\<lambda>s. s \<noteq> []) (map (\<lambda>e. str_of (field e ''name'')) es)"
    by (simp add: strs_nonempty_names)
  have "es = entries (field item ''artists'')"
  proof (cases "truthy (field item ''artists'')")
    case True
    with a have "artists = field item ''artists''" by (simp add: py_or_def)
    with it dicts True show ?thesis
      using py_iter_dicts [of artists es] by (cases "field item ''artists''") auto
  next
    case False
    with a have "artists = PList []" by (simp add: py_or_def)
    with it have "es = []" by simp
    moreover from False have "entries (field item ''artists'') = []"
      by (cases "field item ''artists''") auto
    ultimately show ?thesis by simp
  qed
  with ss_eq joined have
    "joined = join_strings '', '' (nonempty_names (field item ''artists''))"
    by (simp add: nonempty_names_def)
  with ch d show ?thesis
    by (auto simp: channel_fallback_def Let_def py_or_def py_get_dict split: if_splits)
qed

lemma channel_fallback_nonempty_str:
  assumes "str_or_none (field item ''artist'')" and "str_or_none (field item ''author'')"
  shows "nonempty_str (channel_fallback item)"
  using assms by (auto simp: channel_fallback_def Let_def truthy_nonempty_str)

subsection \<open>The thumbnail\<close>

lemma thumbnail_url_of_Inr:
  assumes "thumbnail_url_of item = Inr u"
  shows "u = (if thumbnails_of item \<noteq> [] then field (last (thumbnails_of item)) ''url''
              else PNone)"
  using assms
  by (cases "field item ''thumbnails''")
     (auto simp: thumbnail_url_of_def thumbnails_of_def py_bind_Inr_iff py_get_Inr_iff py_or_def
      split: if_splits)

subsection \<open>The fields of an emitted record\<close>

lemma emitted_fields:
  assumes "normalize_item item = Inr (Some r)"
  shows "field r ''id'' = field item ''videoId''"
    and "field r ''title'' = (if truthy (field item ''title'') then field item ''title''
                              else PStr ''Unknown title'')"
    and "field r ''channel'' = channel_fallback item"
    and "field r ''thumbnailUrl'' =
           (if thumbnails_of item \<noteq> [] then field (last (thumbnails_of item)) ''url''
            else PNone)"
  using assms channel_of_Inr [of item] thumbnail_url_of_Inr [of item]
  by (auto simp: normalize_item_Some field_def)

lemma emitted_normalized:
  assumes "normalize_item item = Inr (Some r)" and "string_typed item"
  shows "normalized_record r"
proof -
  from assms(2) have typed:
    "str_or_none (field item ''videoId'')" "str_or_none (field item ''title'')"
    "str_or_none (field item ''artist'')" "str_or_none (field item ''author'')"
    and urls: "list_all (\<lambda>t. str_or_none (field t ''url'')) (thumbnails_of item)"
    by (simp_all add: string_typed_def)
  from assms(1) obtain ch u where r: "r = PDict [(''id'', field item ''videoId''),
       (''title'', if truthy (field item ''title'') then field item ''title''
                   else PStr ''Unknown title''),
       (''channel'', ch), (''thumbnailUrl'', u)]"
    and id: "truthy (field item ''videoId'')"
    by (auto simp: normalize_item_Some has_video_id_def)
  from r have f: "field r ''id'' = field item ''videoId''"
    "field r ''title'' = (if truthy (field item ''title'') then field item ''title''
                          else PStr ''Unknown title'')"
    "field r ''channel'' = ch" "field r ''thumbnailUrl'' = u"
    by (simp_all add: field_def)
  from emitted_fields(3) [OF assms(1)] f have ch: "ch = channel_fallback item" by simp
  from emitted_fields(4) [OF assms(1)] f have u:
    "u = (if thumbnails_of item \<noteq> [] then field (last (thumbnails_of item)) ''url''
          else PNone)"
    by simp
  have "str_or_none u"
  proof (cases "thumbnails_of item = []")
    case True
    with u show ?thesis by simp
  next
    case False
    then have "last (thumbnails_of item) \<in> set (thumbnails_of item)" by simp
    with urls have "str_or_none (field (last (thumbnails_of item)) ''url'')"
      by (simp add: list_all_iff)
    with u False show ?thesis by simp
  qed
  moreover have "nonempty_str ch"
    using ch typed by (simp add: channel_fallback_nonempty_str)
  moreover have "nonempty_str (field item ''videoId'')"
    using id typed by (simp add: truthy_nonempty_str)
  moreover have "nonempty_str (if truthy (field item ''title'') then field item ''title''
                   else PStr ''Unknown title'')"
    using typed by (simp add: truthy_nonempty_str)
  ultimately show ?thesis using f unfolding r by simp
qed

section \<open>The loop\<close>

text \<open>
  When the loop returns, its results are the accumulator followed by one record for each
  item with an identifier, in the order of the items.
\<close>

lemma normalize_loop_Inr:
  "normalize_loop acc items = Inr rs \<Longrightarrow>
     \<exists>rs'. rs = acc @ rs' \<and>
       list_all2 (\<lambda>item r. normalize_item item = Inr (Some r)) (filter has_video_id items) rs'"
proof (induction items arbitrary: acc)
  case Nil
  then show ?case by simp
next
  case (Cons item items)
  show ?case
  proof (cases "normalize_item item")
    case (Inl e)
    with Cons.prems show ?thesis by simp
  next
    case (Inr res)
    show ?thesis
    proof (cases res)
      case None
      with Inr Cons.prems have "normalize_loop acc items = Inr rs" by simp
      from Cons.IH [OF this] obtain rs' where
        "rs = acc @ rs'"
        "list_all2 (\<lambda>item r. normalize_item item = Inr (Some r)) (filter has_video_id items) rs'"
        by blast
      moreover from Inr None have "\<not> has_video_id item"
        by (simp add: normalize_item_None)
      ultimately show ?thesis by auto
    next
      case (Some r)
      with Inr Cons.prems have "normalize_loop (acc @ [r]) items = Inr rs" by simp
      from Cons.IH [OF this] obtain rs' where
        "rs = (acc @ [r]) @ rs'"
        "list_all2 (\<lambda>item r. normalize_item item = Inr (Some r)) (filter has_video_id items) rs'"
        by blast
      moreover from Inr Some have "has_video_id item"
        by (simp add: normalize_item_Some)
      ultimately show ?thesis using Inr Some by auto
    qed
  qed
qed

lemma normalize_results_Inr:
  "normalize_results items = Inr rs \<Longrightarrow>
     list_all2 (\<lambda>item r. normalize_item item = Inr (Some r)) (filter has_video_id items) rs"
  using normalize_loop_Inr [of "[]" items rs] by (simp add: normalize_results_def)

section \<open>When the normalizer returns\<close>













section \<open>The single read\<close>

lemma video_id_single_read_eq: "video_id_single_read item = video_id_of item"
proof (cases "py_get item ''videoId''")
  case (Inl e)
  then show ?thesis by (simp add: video_id_single_read_def video_id_of_def)
next
  case (Inr a)
  then show ?thesis
    by (simp add: video_id_single_read_def video_id_of_def py_or_def)
qed

lemma normalize_item_single_read_eq: "normalize_item_single_read item = normalize_item item"
  by (simp add: normalize_item_single_read_def normalize_item_def video_id_single_read_eq)

lemma normalize_loop_single_read_eq:
  "normalize_loop_single_read acc items = normalize_loop acc items"
  by (induction items arbitrary: acc)
     (simp_all add: normalize_item_single_read_eq split: sum.splits option.splits)

section \<open>Evaluation of the examples\<close>

lemmas eval_defs =
  normalize_results_def normalize_item_def video_id_of_def channel_of_def thumbnail_url_of_def
  str_join_def py_or_def field_def has_video_id_def raw_record_def artist_entry_def
  thumbnails_of_def channel_fallback_def nonempty_names_def string_typed_def
  song_full_def song_no_id_def song_empty_id_def song_bare_def song_solo_def song_plain_def
  song_zero_title_def

section \<open>The normalizer on the store refines the normalizer on values\<close>

subsection \<open>Stores that grow\<close>

lemma extends_nth:
  "extends h h' \<longleftrightarrow> length h \<le> length h' \<and> (\<forall>a<length h. h' ! a = h ! a)"
  by (auto simp: extends_def list_eq_iff_nth_eq)

lemma extends_refl [simp]: "extends h h"
  by (simp add: extends_nth)

lemma extends_trans: "extends h h' \<Longrightarrow> extends h' h'' \<Longrightarrow> extends h h''"
  by (auto simp: extends_nth)

lemma extends_alloc [simp]: "extends h (h @ [obj])"
  by (simp add: extends_nth nth_append)

lemma extends_stable_except: "extends h h' \<Longrightarrow> stable_except r h h'"
  by (simp add: extends_nth stable_except_def)

lemma stable_except_trans:
  "stable_except r h h' \<Longrightarrow> stable_except r h' h'' \<Longrightarrow> stable_except r h h''"
  by (auto simp: stable_except_def)

lemma extends_then_stable_except:
  "extends hb h \<Longrightarrow> stable_except r h h' \<Longrightarrow> length hb \<le> r \<Longrightarrow> extends hb h'"
  by (auto simp: extends_nth stable_except_def)

lemma stable_except_update:
  "stable_except r h (h[r := obj])"
  by (simp add: stable_except_def)

lemma denotes_extends:
  assumes "denotes h v p" and "extends h h'"
  shows "denotes h' v p"
  using assms(1)
proof (induction rule: denotes.induct)
  case (denotes_List a vs ps)
  from denotes_List(3) have "list_all2 (denotes h') vs ps"
    by (rule list_all2_mono) simp
  with denotes_List(1,2) assms(2) show ?case
    by (auto simp: extends_nth intro!: denotes.denotes_List)
next
  case (denotes_Dict a kvs kps)
  from denotes_Dict(3)
  have "list_all2 (\<lambda>kv kp. fst kv = fst kp \<and> denotes h' (snd kv) (snd kp)) kvs kps"
    by (rule list_all2_mono) simp
  with denotes_Dict(1,2) assms(2) show ?case
    by (auto simp: extends_nth intro!: denotes.denotes_Dict)
qed (auto intro: denotes.intros)

lemma denotes_unique: "denotes h v p \<Longrightarrow> denotes h v q \<Longrightarrow> p = q"
proof (induction arbitrary: q rule: denotes.induct)
  case (denotes_List a vs ps)
  from denotes_List(4,1,2) obtain qs where q: "q = PList qs" and qs: "list_all2 (denotes h) vs qs"
    by (cases rule: denotes.cases) auto
  from denotes_List(3) qs have "ps = qs"
  proof (induction vs ps arbitrary: qs rule: list_all2_induct)
    case Nil
    then show ?case by simp
  next
    case (Cons v vs p ps)
    then show ?case by (cases qs) auto
  qed
  with q show ?case by simp
next
  case (denotes_Dict a kvs kps)
  from denotes_Dict(4,1,2) obtain kqs where q: "q = PDict kqs"
    and kqs: "list_all2 (\<lambda>kv kp. fst kv = fst kp \<and> denotes h (snd kv) (snd kp)) kvs kqs"
    by (cases rule: denotes.cases) auto
  from denotes_Dict(3) kqs have "kps = kqs"
  proof (induction kvs kps arbitrary: kqs rule: list_all2_induct)
    case Nil
    then show ?case by simp
  next
    case (Cons kv kvs kp kps)
    then show ?case by (cases kqs) (auto simp: prod_eq_iff)
  qed
  with q show ?case by simp
qed (auto elim: denotes.cases)

subsection \<open>Reading values that a store holds\<close>

inductive_simps denotes_simps:
  "denotes h VNone p"
  "denotes h (VBool b) p"
  "denotes h (VInt i) p"
  "denotes h (VStr s) p"
  "denotes h (VRef a) (PList ps)"
  "denotes h (VRef a) (PDict kps)"

lemma deref_valid [simp]: "a < length h \<Longrightarrow> deref h a = Inr (h ! a)"
  by (simp add: deref_def)

lemma map_of_related:
  "list_all2 (\<lambda>kv kp. fst kv = fst kp \<and> R (snd kv) (snd kp)) kvs kps \<Longrightarrow>
     rel_option R (map_of kvs k) (map_of kps k)"
  by (induction rule: list_all2_induct) auto

text \<open>Reads of a value with a denotation in a base heap, in any extension of it.\<close>

lemma truthy_h_denotes:
  assumes "denotes hb v p" and "extends hb h"
  shows "truthy_h v h = Inr (truthy p)"
  using assms
  by (cases rule: denotes.cases) (auto simp: extends_nth dest: list_all2_lengthD)

lemma get_h_denotes:
  assumes "denotes hb v p" and "extends hb h"
  shows "rel_sum (=) (denotes hb) (get_h v k h) (py_get p k)"
  using assms
proof (cases rule: denotes.cases)
  case (denotes_Dict a kvs kps)
  from map_of_related [OF denotes_Dict(5), of k]
  have "denotes hb (case map_of kvs k of None \<Rightarrow> VNone | Some w \<Rightarrow> w)
          (case map_of kps k of None \<Rightarrow> PNone | Some q \<Rightarrow> q)"
    by (cases "map_of kvs k"; cases "map_of kps k") (auto intro: denotes.intros)
  with denotes_Dict assms(2) show ?thesis by (simp add: extends_nth)
qed (auto simp: extends_nth)

lemma last_h_denotes:
  assumes "denotes hb v p" and "extends hb h"
  shows "rel_sum (=) (denotes hb) (last_h v h) (py_last p)"
  using assms
proof (cases rule: denotes.cases)
  case (denotes_List a vs ps)
  from denotes_List(5) have "vs \<noteq> [] \<Longrightarrow> denotes hb (last vs) (last ps)"
    by (induction rule: list_all2_induct) (auto simp: list_all2_Nil)
  moreover from denotes_List(5) have "vs = [] \<longleftrightarrow> ps = []" by auto
  ultimately show ?thesis using denotes_List assms(2) by (auto simp: extends_nth)
qed (auto simp: extends_nth intro: denotes.intros)

lemma next_h_denotes:
  assumes "denotes hb v p" and "extends hb h"
  shows "case py_iter p of
           Inl e \<Rightarrow> next_h v i h = Inl e
         | Inr es \<Rightarrow>
             if i < length es then \<exists>w. next_h v i h = Inr (Some w) \<and> denotes hb w (es ! i)
             else next_h v i h = Inr None"
  using assms
proof (cases rule: denotes.cases)
  case (denotes_List a vs ps)
  then show ?thesis using assms(2)
    by (auto simp: extends_nth list_all2_conv_all_nth)
next
  case (denotes_Dict a kvs kps)
  then show ?thesis using assms(2)
    by (auto simp: extends_nth list_all2_conv_all_nth intro: denotes.intros)
qed (auto intro: denotes.intros)

lemma strs_h_denotes:
  "list_all2 (denotes hb) vs ps \<Longrightarrow> strs_h vs = as_strs ps"
proof (induction rule: list_all2_induct)
  case Nil
  then show ?case by simp
next
  case (Cons v vs p ps)
  from Cons(1) show ?case
    by (cases rule: denotes.cases) (simp_all add: Cons.IH)
qed

subsection \<open>Composing runs\<close>

lemma sim_bnd:
  assumes "sim F1 Q m c h"
    and "\<And>x y h'. Q h' x y \<Longrightarrow> F1 h h' \<Longrightarrow> sim F2 S (f x) (g y) h'"
    and "\<And>h'. F1 h h' \<Longrightarrow> F h h'"
    and "\<And>h' h''. F1 h h' \<Longrightarrow> F2 h' h'' \<Longrightarrow> F h h''"
  shows "sim F S (bnd m f) (py_bind c g) h"
proof -
  from assms(1) obtain out h' where m: "m h = Some (out, h')" and F1: "F1 h h'"
    and out: "case out of Inl e \<Rightarrow> c = Inl e | Inr x \<Rightarrow> (\<exists>y. c = Inr y \<and> Q h' x y)"
    by (auto simp: sim_def)
  show ?thesis
  proof (cases out)
    case (Inl e)
    with out m assms(3) [OF F1] show ?thesis
      by (auto simp: sim_def bnd_def)
  next
    case (Inr x)
    with out obtain y where c: "c = Inr y" and Q: "Q h' x y" by auto
    from assms(2) [OF Q F1] obtain out' h'' where
      "f x h' = Some (out', h'')" "F2 h' h''"
      "case out' of Inl e \<Rightarrow> g y = Inl e | Inr x \<Rightarrow> (\<exists>z. g y = Inr z \<and> S h'' x z)"
      by (auto simp: sim_def)
    with m Inr c assms(4) [OF F1] show ?thesis
      by (auto simp: sim_def bnd_def)
  qed
qed

lemma sim_bnd_extends:
  assumes "sim extends Q m c h"
    and "\<And>x y h'. Q h' x y \<Longrightarrow> extends h h' \<Longrightarrow> sim extends S (f x) (g y) h'"
  shows "sim extends S (bnd m f) (py_bind c g) h"
  using assms by (rule sim_bnd) (auto intro: extends_trans)

lemma sim_bnd_stable:
  assumes "sim extends Q m c h"
    and "\<And>x y h'. Q h' x y \<Longrightarrow> extends h h' \<Longrightarrow> sim (stable_except r) S (f x) (g y) h'"
  shows "sim (stable_except r) S (bnd m f) (py_bind c g) h"
  using assms
  by (rule sim_bnd) (auto intro: extends_stable_except stable_except_trans)

lemma sim_ret: "Q h x y \<Longrightarrow> sim extends Q (ret x) (Inr y) h"
  by (simp add: sim_def ret_def)

lemma sim_rd:
  assumes "rel_sum (=) (Q h) (f h) c"
  shows "sim extends Q (rd f) c h"
  using assms by (cases "f h"; cases c) (auto simp: sim_def rd_def)

lemma sim_get:
  assumes "denotes hb v p" and "extends hb h"
  shows "sim extends (\<lambda>h'. denotes hb) (rd (get_h v k)) (py_get p k) h"
  by (rule sim_rd) (rule get_h_denotes [OF assms])

lemma sim_or:
  assumes "denotes hb a p" and "extends hb h"
    and "truthy p \<Longrightarrow> Q h a p"
    and "\<not> truthy p \<Longrightarrow> sim extends Q b c h"
  shows "sim extends Q (or_h a b) (py_or p c) h"
proof (cases "truthy p")
  case True
  with assms(3) truthy_h_denotes [OF assms(1,2)] show ?thesis
    by (simp add: sim_def or_h_def py_or_def bnd_def rd_def ret_def)
next
  case False
  with assms(4) truthy_h_denotes [OF assms(1,2)] show ?thesis
    by (simp add: sim_def or_h_def py_or_def bnd_def rd_def)
qed

lemma bnd_ret [simp]: "bnd (ret x) f = f x"
  by (rule ext) (simp add: bnd_def ret_def)

lemma bnd_alloc [simp]: "bnd (alloc obj) f h = f (length h) (h @ [obj])"
  by (simp add: bnd_def alloc_def)

lemma bnd_rd: "bnd (rd g) f h = (case g h of Inl e \<Rightarrow> Some (Inl e, h) | Inr x \<Rightarrow> f x h)"
  by (simp add: bnd_def rd_def split: sum.splits)

lemma bnd_assoc: "bnd (bnd m f) g = bnd m (\<lambda>x. bnd (f x) g)"
  by (rule ext) (simp add: bnd_def split: option.splits sum.splits prod.splits)

lemma bnd_or_h:
  "truthy_h a h = Inr t \<Longrightarrow> bnd (or_h a b) f h = (if t then f a h else bnd b f h)"
  by (simp add: or_h_def bnd_assoc bnd_rd)

subsection \<open>The thumbnail and the channel\<close>

lemma thumbnail_url_h_sim:
  assumes item: "denotes hb item ip" and h: "extends hb h"
  shows "sim extends (\<lambda>h'. denotes hb) (thumbnail_url_h item) (thumbnail_url_of ip) h"
  unfolding thumbnail_url_h_def thumbnail_url_of_def
proof (rule sim_bnd_extends [OF sim_get [OF item h]])
  fix t tp h1
  assume t: "denotes hb t tp" and "extends h h1"
  with h have h1: "extends hb h1" by (blast intro: extends_trans)
  note tr = truthy_h_denotes [OF t h1]
  show "sim extends (\<lambda>h'. denotes hb)
          (bnd (or_h t (bnd (alloc (HList [])) (\<lambda>l. ret (VRef l))))
             (\<lambda>thumbnails. bnd (rd (truthy_h thumbnails))
                (\<lambda>b. if b then bnd (rd (last_h thumbnails)) (\<lambda>l. rd (get_h l ''url''))
                      else ret VNone)))
          (py_bind (py_or tp (Inr (PList [])))
             (\<lambda>thumbnails. if truthy thumbnails
                then py_bind (py_last thumbnails) (\<lambda>l. py_get l ''url'') else Inr PNone))
          h1"
  proof (cases "truthy tp")
    case True
    have "sim extends (\<lambda>h'. denotes hb)
            (bnd (rd (last_h t)) (\<lambda>l. rd (get_h l ''url'')))
            (py_bind (py_last tp) (\<lambda>l. py_get l ''url'')) h1"
    proof (rule sim_bnd_extends)
      show "sim extends (\<lambda>h'. denotes hb) (rd (last_h t)) (py_last tp) h1"
        by (rule sim_rd) (rule last_h_denotes [OF t h1])
    next
      fix l lp h2
      assume "denotes hb l lp" and "extends h1 h2"
      with h1 show "sim extends (\<lambda>h'. denotes hb) (rd (get_h l ''url'')) (py_get lp ''url'') h2"
        by (blast intro: sim_get extends_trans)
    qed
    with True tr show ?thesis
      by (simp add: sim_def bnd_or_h bnd_rd py_or_def)
  next
    case False
    have "truthy_h (VRef (length h1)) (h1 @ [HList []]) = Inr False"
      by simp
    with False tr show ?thesis
      by (simp add: sim_def bnd_or_h bnd_assoc bnd_rd py_or_def ret_def denotes.intros)
  qed
qed

lemma append_h_list:
  "a < length h \<Longrightarrow> h ! a = HList xs \<Longrightarrow>
     append_h a v h = Some (Inr (), h[a := HList (xs @ [v])])"
  by (simp add: append_h_def)

lemma extends_update:
  "extends hb h \<Longrightarrow> length hb \<le> a \<Longrightarrow> extends hb (h[a := obj])"
  by (simp add: extends_nth)

lemma names_step_run:
  assumes artist: "denotes hb artist ap" and h: "extends hb h"
    and L: "length hb \<le> L" "L < length h" and hL: "h ! L = HList ns"
  shows "case py_get ap ''name'' of
           Inl e \<Rightarrow> names_step artist L h = Some (Inl e, h)
         | Inr cp \<Rightarrow>
             if truthy cp
             then \<exists>n. names_step artist L h = Some (Inr (), h[L := HList (ns @ [n])]) \<and>
                    denotes hb n cp
             else names_step artist L h = Some (Inr (), h)"
proof (cases "py_get ap ''name''")
  case (Inl e)
  with get_h_denotes [OF artist h, of "''name''"] show ?thesis
    by (cases "get_h artist ''name'' h") (simp_all add: names_step_def bnd_rd)
next
  case (Inr cp)
  with get_h_denotes [OF artist h, of "''name''"] obtain c where
    c: "get_h artist ''name'' h = Inr c" "denotes hb c cp"
    by (cases "get_h artist ''name'' h") auto
  from truthy_h_denotes [OF c(2) h] c Inr L hL show ?thesis
    by (auto simp: names_step_def bnd_rd append_h_list ret_def)
qed

lemma names_loop_run:
  assumes artists: "denotes hb artists ap" and it: "py_iter ap = Inr es"
    and L: "length hb \<le> L"
  shows "extends hb h \<Longrightarrow> L < length h \<Longrightarrow> h ! L = HList ns \<Longrightarrow>
     \<exists>out h'. names_loop artists i L h = Some (out, h') \<and> extends hb h' \<and>
       length h' = length h \<and> (\<forall>a<length h. a \<noteq> L \<longrightarrow> h' ! a = h ! a) \<and>
       (case artist_names (drop i es) of
          Inl e \<Rightarrow> out = Inl e
        | Inr ms \<Rightarrow> out = Inr () \<and>
            (\<exists>ws. h' ! L = HList (ns @ ws) \<and> list_all2 (denotes hb) ws ms))"
proof (induction "length es - i" arbitrary: i h ns)
  case 0
  then have "\<not> i < length es" by simp
  with next_h_denotes [OF artists "0.prems"(1), of i] it
  have "next_h artists i h = Inr None" by simp
  with \<open>\<not> i < length es\<close> "0.prems" show ?case
    by (subst names_loop.simps) simp
next
  case (Suc n)
  then have i: "i < length es" by simp
  with next_h_denotes [OF artists Suc.prems(1), of i] it obtain w where
    w: "next_h artists i h = Inr (Some w)" "denotes hb w (es ! i)"
    by auto
  from i have drop: "drop i es = es ! i # drop (Suc i) es"
    by (simp add: Cons_nth_drop_Suc)
  note step = names_step_run [OF w(2) Suc.prems(1) L Suc.prems(2,3)]
  from Suc(2) have n: "n = length es - Suc i" by simp
  show ?case
  proof (cases "py_get (es ! i) ''name''")
    case (Inl e)
    with step w drop Suc.prems show ?thesis
      by (subst names_loop.simps) simp
  next
    case (Inr cp)
    show ?thesis
    proof (cases "truthy cp")
      case True
      with step Inr obtain nv where
        nv: "names_step w L h = Some (Inr (), h[L := HList (ns @ [nv])])" "denotes hb nv cp"
        by auto
      let ?h = "h[L := HList (ns @ [nv])]"
      have "extends hb ?h" "L < length ?h" "?h ! L = HList (ns @ [nv])"
        using Suc.prems L by (simp_all add: extends_update)
      from Suc(1) [OF n this] obtain out h' where
        run: "names_loop artists (Suc i) L ?h = Some (out, h')" "extends hb h'"
        "length h' = length ?h" "\<forall>a<length ?h. a \<noteq> L \<longrightarrow> h' ! a = ?h ! a"
        and res: "case artist_names (drop (Suc i) es) of
            Inl e \<Rightarrow> out = Inl e
          | Inr ms \<Rightarrow> out = Inr () \<and>
              (\<exists>ws. h' ! L = HList ((ns @ [nv]) @ ws) \<and> list_all2 (denotes hb) ws ms)"
        by blast
      have loop: "names_loop artists i L h = Some (out, h')"
        using w nv run(1) by (subst names_loop.simps) simp
      have "case artist_names (drop i es) of
            Inl e \<Rightarrow> out = Inl e
          | Inr ms \<Rightarrow> out = Inr () \<and>
              (\<exists>ws. h' ! L = HList (ns @ ws) \<and> list_all2 (denotes hb) ws ms)"
      proof (cases "artist_names (drop (Suc i) es)")
        case (Inl e)
        with res drop Inr True show ?thesis by simp
      next
        case (Inr ms)
        with res obtain ws where "out = Inr ()" "h' ! L = HList (ns @ nv # ws)"
          "list_all2 (denotes hb) ws ms"
          by auto
        with drop \<open>py_get (es ! i) ''name'' = Inr cp\<close> True Inr nv(2) show ?thesis
          by auto
      qed
      with loop run show ?thesis by auto
    next
      case False
      with step Inr have st: "names_step w L h = Some (Inr (), h)" by simp
      from Suc(1) [OF n Suc.prems] obtain out h' where
        run: "names_loop artists (Suc i) L h = Some (out, h')" "extends hb h'"
        "length h' = length h" "\<forall>a<length h. a \<noteq> L \<longrightarrow> h' ! a = h ! a"
        and res: "case artist_names (drop (Suc i) es) of
            Inl e \<Rightarrow> out = Inl e
          | Inr ms \<Rightarrow> out = Inr () \<and>
              (\<exists>ws. h' ! L = HList (ns @ ws) \<and> list_all2 (denotes hb) ws ms)"
        by blast
      have loop: "names_loop artists i L h = Some (out, h')"
        using w st run(1) by (subst names_loop.simps) simp
      from res drop Inr False have "case artist_names (drop i es) of
            Inl e \<Rightarrow> out = Inl e
          | Inr ms \<Rightarrow> out = Inr () \<and>
              (\<exists>ws. h' ! L = HList (ns @ ws) \<and> list_all2 (denotes hb) ws ms)"
        by simp
      with loop run show ?thesis by auto
    qed
  qed
qed

lemma names_loop_not_iterable:
  assumes "denotes hb artists ap" and "py_iter ap = Inl e" and "extends hb h"
  shows "names_loop artists 0 L h = Some (Inl e, h)"
  using next_h_denotes [OF assms(1,3), of 0] assms(2)
  by (subst names_loop.simps) simp

lemma py_bind_assoc: "py_bind (py_bind m f) g = py_bind m (\<lambda>x. py_bind (f x) g)"
  by (cases m) simp_all

lemma joined_sim:
  assumes artists: "denotes h artists ap"
  shows "sim extends (\<lambda>h' s s'. s = s')
           (bnd (alloc (HList [])) (\<lambda>names.
              bnd (names_loop artists 0 names) (\<lambda>u. rd (join_h '', '' names))))
           (py_bind (py_iter ap) (\<lambda>es. py_bind (artist_names es) (str_join '', '')))
           h"
proof (cases "py_iter ap")
  case (Inl e)
  from names_loop_not_iterable [OF artists Inl, of "h @ [HList []]" "length h"] Inl
  show ?thesis
    by (simp add: sim_def bnd_def alloc_def)
next
  case (Inr es)
  from names_loop_run [OF artists Inr, of "length h" "h @ [HList []]" "[]" 0]
  obtain out h' where run: "names_loop artists 0 (length h) (h @ [HList []]) = Some (out, h')"
    and h': "extends h h'" "length h' = Suc (length h)"
    and res: "case artist_names es of
        Inl e \<Rightarrow> out = Inl e
      | Inr ms \<Rightarrow> out = Inr () \<and>
          (\<exists>ws. h' ! length h = HList ([] @ ws) \<and> list_all2 (denotes h) ws ms)"
    by auto
  show ?thesis
  proof (cases "artist_names es")
    case (Inl e)
    with res run h' Inr show ?thesis
      by (simp add: sim_def bnd_def alloc_def)
  next
    case ms: (Inr ms)
    with res obtain ws where out: "out = Inr ()" and ws: "h' ! length h = HList ws"
      "list_all2 (denotes h) ws ms"
      by auto
    from ws h' have "join_h '', '' (length h) h' = str_join '', '' ms"
      by (simp add: join_h_def str_join_def strs_h_denotes [OF ws(2)])
    with run out h' Inr ms show ?thesis
      by (cases "str_join '', '' ms") (simp_all add: sim_def bnd_def alloc_def rd_def)
  qed
qed

lemma channel_h_sim:
  assumes item: "denotes hb item ip" and h: "extends hb h"
  shows "sim extends (\<lambda>h'. denotes hb) (channel_h item) (channel_of ip) h"
  unfolding channel_h_def channel_of_def
proof (rule sim_bnd_extends [OF sim_get [OF item h]])
  fix a ap h1
  assume a: "denotes hb a ap" and "extends h h1"
  with h have h1: "extends hb h1" by (blast intro: extends_trans)
  let ?K = "\<lambda>artists. bnd (alloc (HList [])) (\<lambda>names.
       bnd (names_loop artists 0 names) (\<lambda>u.
       bnd (rd (join_h '', '' names)) (\<lambda>channel.
       bnd (rd (truthy_h (VStr channel))) (\<lambda>t.
         if \<not> t
         then bnd (rd (get_h item ''artist'')) (\<lambda>b.
                or_h b (bnd (rd (get_h item ''author'')) (\<lambda>c.
                  or_h c (ret (VStr ''YouTube Music'')))))
         else ret (VStr channel)))))"
  let ?K' = "\<lambda>artists. py_bind (py_iter artists) (\<lambda>entries.
       py_bind (artist_names entries) (\<lambda>names.
       py_bind (str_join '', '' names) (\<lambda>channel.
         if \<not> truthy (PStr channel)
         then py_bind (py_get ip ''artist'') (\<lambda>b.
                py_or b (py_bind (py_get ip ''author'') (\<lambda>c.
                  py_or c (Inr (PStr ''YouTube Music'')))))
         else Inr (PStr channel))))"
  have rest: "sim extends (\<lambda>h'. denotes hb) (?K av) (?K' avp) h2"
    if av: "denotes h2 av avp" and h2: "extends hb h2" for av avp h2
  proof -
    have K: "?K av = bnd (bnd (alloc (HList [])) (\<lambda>names.
          bnd (names_loop av 0 names) (\<lambda>u. rd (join_h '', '' names))))
        (\<lambda>channel. bnd (rd (truthy_h (VStr channel))) (\<lambda>t.
           if \<not> t
           then bnd (rd (get_h item ''artist'')) (\<lambda>b.
                  or_h b (bnd (rd (get_h item ''author'')) (\<lambda>c.
                    or_h c (ret (VStr ''YouTube Music'')))))
           else ret (VStr channel)))"
      by (simp add: bnd_assoc)
    have K': "?K' avp =
        py_bind (py_bind (py_iter avp) (\<lambda>es. py_bind (artist_names es) (str_join '', '')))
          (\<lambda>channel. if \<not> truthy (PStr channel)
             then py_bind (py_get ip ''artist'') (\<lambda>b.
                    py_or b (py_bind (py_get ip ''author'') (\<lambda>c.
                      py_or c (Inr (PStr ''YouTube Music'')))))
             else Inr (PStr channel))"
      by (simp add: py_bind_assoc)
    show ?thesis
      unfolding K K'
    proof (rule sim_bnd_extends [OF joined_sim [OF av]])
      fix s s' :: string and h3
      assume s: "s = s'" and "extends h2 h3"
      with h2 have h3: "extends hb h3" by (blast intro: extends_trans)
      have fallback: "sim extends (\<lambda>h'. denotes hb)
          (bnd (rd (get_h item ''artist'')) (\<lambda>b.
             or_h b (bnd (rd (get_h item ''author'')) (\<lambda>c.
               or_h c (ret (VStr ''YouTube Music''))))))
          (py_bind (py_get ip ''artist'') (\<lambda>b.
             py_or b (py_bind (py_get ip ''author'') (\<lambda>c.
               py_or c (Inr (PStr ''YouTube Music''))))))
          h3"
      proof (rule sim_bnd_extends [OF sim_get [OF item h3]])
        fix b bp h4
        assume b: "denotes hb b bp" and "extends h3 h4"
        with h3 have h4: "extends hb h4" by (blast intro: extends_trans)
        show "sim extends (\<lambda>h'. denotes hb)
            (or_h b (bnd (rd (get_h item ''author'')) (\<lambda>c.
               or_h c (ret (VStr ''YouTube Music'')))))
            (py_or bp (py_bind (py_get ip ''author'') (\<lambda>c.
               py_or c (Inr (PStr ''YouTube Music'')))))
            h4"
        proof (rule sim_or [OF b h4])
          show "denotes hb b bp" by fact
        next
          show "sim extends (\<lambda>h'. denotes hb)
              (bnd (rd (get_h item ''author'')) (\<lambda>c. or_h c (ret (VStr ''YouTube Music''))))
              (py_bind (py_get ip ''author'') (\<lambda>c. py_or c (Inr (PStr ''YouTube Music''))))
              h4"
          proof (rule sim_bnd_extends [OF sim_get [OF item h4]])
            fix c cp h5
            assume c: "denotes hb c cp" and "extends h4 h5"
            with h4 have h5: "extends hb h5" by (blast intro: extends_trans)
            show "sim extends (\<lambda>h'. denotes hb) (or_h c (ret (VStr ''YouTube Music'')))
                (py_or cp (Inr (PStr ''YouTube Music''))) h5"
              by (rule sim_or [OF c h5]) (rule c, rule sim_ret, rule denotes_Str)
          qed
        qed
      qed
      show "sim extends (\<lambda>h'. denotes hb)
          (bnd (rd (truthy_h (VStr s))) (\<lambda>t.
             if \<not> t
             then bnd (rd (get_h item ''artist'')) (\<lambda>b.
                    or_h b (bnd (rd (get_h item ''author'')) (\<lambda>c.
                      or_h c (ret (VStr ''YouTube Music'')))))
             else ret (VStr s)))
          (if \<not> truthy (PStr s')
           then py_bind (py_get ip ''artist'') (\<lambda>b.
                  py_or b (py_bind (py_get ip ''author'') (\<lambda>c.
                    py_or c (Inr (PStr ''YouTube Music'')))))
           else Inr (PStr s'))
          h3"
      proof (cases "s = []")
        case True
        with s fallback show ?thesis
          by (simp add: sim_def bnd_rd)
      next
        case False
        with s show ?thesis
          by (simp add: sim_def bnd_rd ret_def denotes.intros)
      qed
    qed
  qed
  note tr = truthy_h_denotes [OF a h1]
  show "sim extends (\<lambda>h'. denotes hb)
      (bnd (or_h a (bnd (alloc (HList [])) (\<lambda>l. ret (VRef l)))) ?K)
      (py_bind (py_or ap (Inr (PList []))) ?K') h1"
  proof (cases "truthy ap")
    case True
    from denotes_extends [OF a h1] h1 have "sim extends (\<lambda>h'. denotes hb) (?K a) (?K' ap) h1"
      by (rule rest)
    moreover have "bnd (or_h a (bnd (alloc (HList [])) (\<lambda>l. ret (VRef l)))) ?K h1 = ?K a h1"
      using True tr by (simp add: bnd_or_h)
    ultimately show ?thesis using True
      by (simp add: py_or_def sim_def)
  next
    case False
    let ?h2 = "h1 @ [HList []]"
    have "denotes ?h2 (VRef (length h1)) (PList [])"
      by (rule denotes_List [of _ _ "[]"]) simp_all
    moreover from h1 have "extends hb ?h2" by (blast intro: extends_trans extends_alloc)
    ultimately have s: "sim extends (\<lambda>h'. denotes hb) (?K (VRef (length h1))) (?K' (PList [])) ?h2"
      by (rule rest)
    have eq: "bnd (or_h a (bnd (alloc (HList [])) (\<lambda>l. ret (VRef l)))) ?K h1 =
        ?K (VRef (length h1)) ?h2"
      using False tr by (simp add: bnd_or_h bnd_assoc)
    from s obtain out h3 where run: "?K (VRef (length h1)) ?h2 = Some (out, h3)"
      and h3: "extends ?h2 h3"
      and out: "case out of Inl e \<Rightarrow> ?K' (PList []) = Inl e
                | Inr x \<Rightarrow> (\<exists>y. ?K' (PList []) = Inr y \<and> denotes hb x y)"
      unfolding sim_def by blast
    from eq run have "bnd (or_h a (bnd (alloc (HList [])) (\<lambda>l. ret (VRef l)))) ?K h1 =
        Some (out, h3)"
      by (simp only:)
    moreover from h3 have "extends h1 h3" by (blast intro: extends_trans extends_alloc)
    moreover from False have "py_bind (py_or ap (Inr (PList []))) ?K' = ?K' (PList [])"
      by (simp add: py_or_def)
    ultimately show ?thesis using out
      unfolding sim_def by (simp only:) blast
  qed
qed

subsection \<open>The loop body and the loop\<close>

lemma stable_except_refl [simp]: "stable_except r h h"
  by (simp add: stable_except_def)

lemma emit_sim:
  assumes h: "extends h0 h" and res: "res < length h0" "h0 ! res = HList ds"
    and fields: "denotes hb v1 p1" "denotes hb v2 p2" "denotes hb v3 p3" "denotes hb v4 p4"
  shows "sim (stable_except res) (appended hb res ds)
           (bnd (alloc (HDict [(''id'', v1), (''title'', v2), (''channel'', v3),
                               (''thumbnailUrl'', v4)]))
              (\<lambda>d. append_h res (VRef d)))
           (Inr (Some (PDict [(''id'', p1), (''title'', p2), (''channel'', p3),
                              (''thumbnailUrl'', p4)])))
           h"
proof -
  let ?obj = "HDict [(''id'', v1), (''title'', v2), (''channel'', v3), (''thumbnailUrl'', v4)]"
  let ?h' = "(h @ [?obj])[res := HList (ds @ [VRef (length h)])]"
  from h res have r: "res < length h" "h ! res = HList ds"
    by (auto simp: extends_nth)
  then have run: "bnd (alloc ?obj) (\<lambda>d. append_h res (VRef d)) h = Some (Inr (), ?h')"
    by (simp add: append_h_list nth_append)
  have "stable_except res h ?h'"
    by (simp add: stable_except_def nth_append)
  moreover from r fields have "appended hb res ds ?h' ()
      (Some (PDict [(''id'', p1), (''title'', p2), (''channel'', p3), (''thumbnailUrl'', p4)]))"
    by (auto simp: appended_def record_at_def nth_append intro!: exI [of _ "length h"])
  ultimately show ?thesis using run
    unfolding sim_def by auto
qed

lemma body_h_sim:
  assumes item: "denotes hb item ip" and h: "extends hb h"
    and res: "res < length h" "h ! res = HList ds"
  shows "sim (stable_except res) (appended hb res ds) (body_h item res) (normalize_item ip) h"
  unfolding body_h_def normalize_item_def video_id_of_def py_bind_assoc
proof (rule sim_bnd_stable [OF sim_get [OF item h]])
  fix a ap h1
  assume a: "denotes hb a ap" and e1: "extends h h1"
  with h have h1: "extends hb h1" by (blast intro: extends_trans)
  show "sim (stable_except res) (appended hb res ds)
      (bnd (or_h a (rd (get_h item ''videoId''))) (\<lambda>video_id.
         bnd (rd (truthy_h video_id)) (\<lambda>t.
           if \<not> t then ret ()
           else bnd (rd (get_h item ''title'')) (\<lambda>t.
                bnd (or_h t (ret (VStr ''Unknown title''))) (\<lambda>title.
                bnd (channel_h item) (\<lambda>channel.
                bnd (thumbnail_url_h item) (\<lambda>thumbnail_url.
                bnd (alloc (HDict [(''id'', video_id), (''title'', title),
                       (''channel'', channel), (''thumbnailUrl'', thumbnail_url)]))
                  (\<lambda>d. append_h res (VRef d)))))))))
      (py_bind (py_or ap (py_get ip ''videoId'')) (\<lambda>video_id.
         if \<not> truthy video_id then Inr None
         else py_bind (py_get ip ''title'') (\<lambda>t.
              py_bind (py_or t (Inr (PStr ''Unknown title''))) (\<lambda>title.
              py_bind (channel_of ip) (\<lambda>channel.
              py_bind (thumbnail_url_of ip) (\<lambda>thumbnail_url.
                Inr (Some (PDict [(''id'', video_id), (''title'', title),
                  (''channel'', channel), (''thumbnailUrl'', thumbnail_url)]))))))))
      h1"
  proof (rule sim_bnd_stable)
    show "sim extends (\<lambda>h'. denotes hb) (or_h a (rd (get_h item ''videoId'')))
        (py_or ap (py_get ip ''videoId'')) h1"
      by (rule sim_or [OF a h1]) (rule a, rule sim_get [OF item h1])
  next
    fix video_id vp h2
    assume v: "denotes hb video_id vp" and "extends h1 h2"
    with e1 h1 have e2: "extends h h2" and h2: "extends hb h2" by (blast intro: extends_trans)+
    note tr = truthy_h_denotes [OF v h2]
    show "sim (stable_except res) (appended hb res ds)
        (bnd (rd (truthy_h video_id)) (\<lambda>t.
           if \<not> t then ret ()
           else bnd (rd (get_h item ''title'')) (\<lambda>t.
                bnd (or_h t (ret (VStr ''Unknown title''))) (\<lambda>title.
                bnd (channel_h item) (\<lambda>channel.
                bnd (thumbnail_url_h item) (\<lambda>thumbnail_url.
                bnd (alloc (HDict [(''id'', video_id), (''title'', title),
                       (''channel'', channel), (''thumbnailUrl'', thumbnail_url)]))
                  (\<lambda>d. append_h res (VRef d))))))))
        (if \<not> truthy vp then Inr None
         else py_bind (py_get ip ''title'') (\<lambda>t.
              py_bind (py_or t (Inr (PStr ''Unknown title''))) (\<lambda>title.
              py_bind (channel_of ip) (\<lambda>channel.
              py_bind (thumbnail_url_of ip) (\<lambda>thumbnail_url.
                Inr (Some (PDict [(''id'', vp), (''title'', title),
                  (''channel'', channel), (''thumbnailUrl'', thumbnail_url)])))))))
        h2"
    proof (cases "truthy vp")
      case False
      from e2 res have "h2 ! res = HList ds" by (auto simp: extends_nth)
      with False tr show ?thesis
        by (simp add: sim_def bnd_rd ret_def appended_def)
    next
      case True
      have "sim (stable_except res) (appended hb res ds)
          (bnd (rd (get_h item ''title'')) (\<lambda>t.
             bnd (or_h t (ret (VStr ''Unknown title''))) (\<lambda>title.
             bnd (channel_h item) (\<lambda>channel.
             bnd (thumbnail_url_h item) (\<lambda>thumbnail_url.
             bnd (alloc (HDict [(''id'', video_id), (''title'', title),
                    (''channel'', channel), (''thumbnailUrl'', thumbnail_url)]))
               (\<lambda>d. append_h res (VRef d)))))))
          (py_bind (py_get ip ''title'') (\<lambda>t.
             py_bind (py_or t (Inr (PStr ''Unknown title''))) (\<lambda>title.
             py_bind (channel_of ip) (\<lambda>channel.
             py_bind (thumbnail_url_of ip) (\<lambda>thumbnail_url.
               Inr (Some (PDict [(''id'', vp), (''title'', title),
                 (''channel'', channel), (''thumbnailUrl'', thumbnail_url)])))))))
          h2"
      proof (rule sim_bnd_stable [OF sim_get [OF item h2]])
        fix t tp h3
        assume t: "denotes hb t tp" and "extends h2 h3"
        with e2 h2 have e3: "extends h h3" and h3: "extends hb h3" by (blast intro: extends_trans)+
        show "sim (stable_except res) (appended hb res ds)
            (bnd (or_h t (ret (VStr ''Unknown title''))) (\<lambda>title.
               bnd (channel_h item) (\<lambda>channel.
               bnd (thumbnail_url_h item) (\<lambda>thumbnail_url.
               bnd (alloc (HDict [(''id'', video_id), (''title'', title),
                      (''channel'', channel), (''thumbnailUrl'', thumbnail_url)]))
                 (\<lambda>d. append_h res (VRef d))))))
            (py_bind (py_or tp (Inr (PStr ''Unknown title''))) (\<lambda>title.
               py_bind (channel_of ip) (\<lambda>channel.
               py_bind (thumbnail_url_of ip) (\<lambda>thumbnail_url.
                 Inr (Some (PDict [(''id'', vp), (''title'', title),
                   (''channel'', channel), (''thumbnailUrl'', thumbnail_url)]))))))
            h3"
        proof (rule sim_bnd_stable)
          show "sim extends (\<lambda>h'. denotes hb) (or_h t (ret (VStr ''Unknown title'')))
              (py_or tp (Inr (PStr ''Unknown title''))) h3"
            by (rule sim_or [OF t h3]) (rule t, rule sim_ret, rule denotes_Str)
        next
          fix title titlep h4
          assume title: "denotes hb title titlep" and "extends h3 h4"
          with e3 h3 have e4: "extends h h4" and h4: "extends hb h4" by (blast intro: extends_trans)+
          show "sim (stable_except res) (appended hb res ds)
              (bnd (channel_h item) (\<lambda>channel.
                 bnd (thumbnail_url_h item) (\<lambda>thumbnail_url.
                 bnd (alloc (HDict [(''id'', video_id), (''title'', title),
                        (''channel'', channel), (''thumbnailUrl'', thumbnail_url)]))
                   (\<lambda>d. append_h res (VRef d)))))
              (py_bind (channel_of ip) (\<lambda>channel.
                 py_bind (thumbnail_url_of ip) (\<lambda>thumbnail_url.
                   Inr (Some (PDict [(''id'', vp), (''title'', titlep),
                     (''channel'', channel), (''thumbnailUrl'', thumbnail_url)])))))
              h4"
          proof (rule sim_bnd_stable [OF channel_h_sim [OF item h4]])
            fix channel channelp h5
            assume channel: "denotes hb channel channelp" and "extends h4 h5"
            with e4 h4 have e5: "extends h h5" and h5: "extends hb h5" by (blast intro: extends_trans)+
            show "sim (stable_except res) (appended hb res ds)
                (bnd (thumbnail_url_h item) (\<lambda>thumbnail_url.
                   bnd (alloc (HDict [(''id'', video_id), (''title'', title),
                          (''channel'', channel), (''thumbnailUrl'', thumbnail_url)]))
                     (\<lambda>d. append_h res (VRef d))))
                (py_bind (thumbnail_url_of ip) (\<lambda>thumbnail_url.
                   Inr (Some (PDict [(''id'', vp), (''title'', titlep),
                     (''channel'', channelp), (''thumbnailUrl'', thumbnail_url)]))))
                h5"
            proof (rule sim_bnd_stable [OF thumbnail_url_h_sim [OF item h5]])
              fix u up h6
              assume u: "denotes hb u up" and "extends h5 h6"
              with e5 have e6: "extends h h6" by (blast intro: extends_trans)
              show "sim (stable_except res) (appended hb res ds)
                  (bnd (alloc (HDict [(''id'', video_id), (''title'', title),
                          (''channel'', channel), (''thumbnailUrl'', u)]))
                     (\<lambda>d. append_h res (VRef d)))
                  (Inr (Some (PDict [(''id'', vp), (''title'', titlep),
                     (''channel'', channelp), (''thumbnailUrl'', up)])))
                  h6"
                by (rule emit_sim [OF e6 res v title channel u])
            qed
          qed
        qed
      qed
      with True tr show ?thesis
        by (simp add: sim_def bnd_rd)
    qed
  qed
qed

lemma emitted_at_stable:
  "emitted_at hb res h dv r \<Longrightarrow> stable_except res h h' \<Longrightarrow> emitted_at hb res h' dv r"
  by (auto simp: emitted_at_def record_at_def stable_except_def)

lemma loop_h_run:
  assumes items: "denotes hb items (PList ps)" and res: "length hb \<le> res"
  shows "extends hb h \<Longrightarrow> res < length h \<Longrightarrow> h ! res = HList ds \<Longrightarrow>
     list_all2 (emitted_at hb res h) ds acc \<Longrightarrow>
     \<exists>out h'. loop_h items i res h = Some (out, h') \<and> stable_except res h h' \<and>
       (case normalize_loop acc (drop i ps) of
          Inl e \<Rightarrow> out = Inl e
        | Inr rs \<Rightarrow> out = Inr () \<and>
            (\<exists>ds'. h' ! res = HList ds' \<and> list_all2 (emitted_at hb res h') ds' rs))"
proof (induction "length ps - i" arbitrary: i h ds acc)
  case 0
  then have "\<not> i < length ps" by simp
  with next_h_denotes [OF items "0.prems"(1), of i]
  have "next_h items i h = Inr None" by simp
  with \<open>\<not> i < length ps\<close> "0.prems" show ?case
    by (subst loop_h.simps) auto
next
  case (Suc n)
  then have i: "i < length ps" by simp
  with next_h_denotes [OF items Suc.prems(1), of i] obtain item where
    item: "next_h items i h = Inr (Some item)" "denotes hb item (ps ! i)"
    by auto
  from i have drop: "drop i ps = ps ! i # drop (Suc i) ps"
    by (simp add: Cons_nth_drop_Suc)
  from Suc(2) have n: "n = length ps - Suc i" by simp
  from body_h_sim [OF item(2) Suc.prems(1,2,3)] obtain out1 h1 where
    body: "body_h item res h = Some (out1, h1)" and st: "stable_except res h h1"
    and out1: "case out1 of Inl e \<Rightarrow> normalize_item (ps ! i) = Inl e
               | Inr u \<Rightarrow> (\<exists>y. normalize_item (ps ! i) = Inr y \<and> appended hb res ds h1 u y)"
    unfolding sim_def by blast
  show ?case
  proof (cases out1)
    case (Inl e)
    with out1 body item st drop show ?thesis
      by (subst loop_h.simps) simp
  next
    case (Inr u)
    with out1 obtain y where y: "normalize_item (ps ! i) = Inr y" "appended hb res ds h1 u y"
      by auto
    from Suc.prems(1) st res have h1: "extends hb h1"
      by (rule extends_then_stable_except)
    from st Suc.prems(2) have r1: "res < length h1"
      by (simp add: stable_except_def)
    from Suc.prems(4) st have old: "list_all2 (emitted_at hb res h1) ds acc"
      by (auto elim!: list_all2_mono intro: emitted_at_stable)
    obtain ds1 acc1 where ds1: "h1 ! res = HList ds1"
      "list_all2 (emitted_at hb res h1) ds1 acc1"
      and acc1: "normalize_loop acc (drop i ps) = normalize_loop acc1 (drop (Suc i) ps)"
    proof (cases y)
      case None
      with y old drop that [of ds acc] show ?thesis
        by (simp add: appended_def)
    next
      case (Some r)
      with y obtain d where d: "h1 ! res = HList (ds @ [VRef d])" "d \<noteq> res" "record_at hb h1 d r"
        by (auto simp: appended_def)
      then have "list_all2 (emitted_at hb res h1) (ds @ [VRef d]) (acc @ [r])"
        using old by (auto simp: emitted_at_def intro!: list_all2_appendI)
      with d y Some drop that [of "ds @ [VRef d]" "acc @ [r]"] show ?thesis
        by simp
    qed
    from Suc(1) [OF n h1 r1 ds1] obtain out h' where
      run: "loop_h items (Suc i) res h1 = Some (out, h')" "stable_except res h1 h'"
      and res': "case normalize_loop acc1 (drop (Suc i) ps) of
          Inl e \<Rightarrow> out = Inl e
        | Inr rs \<Rightarrow> out = Inr () \<and>
            (\<exists>ds'. h' ! res = HList ds' \<and> list_all2 (emitted_at hb res h') ds' rs)"
      by blast
    have "loop_h items i res h = Some (out, h')"
      using item body Inr run(1) by (subst loop_h.simps) simp
    moreover from st run(2) have "stable_except res h h'"
      by (rule stable_except_trans)
    ultimately show ?thesis using res' acc1 by auto
  qed
qed

lemma emitted_at_denotes:
  assumes "emitted_at hb res h dv r" and "extends hb h"
  shows "denotes h dv r"
proof -
  from assms(1) obtain d kvs kps where d: "dv = VRef d" "d < length h" "h ! d = HDict kvs"
    "r = PDict kps"
    and f: "list_all2 (\<lambda>kv kp. fst kv = fst kp \<and> denotes hb (snd kv) (snd kp)) kvs kps"
    by (auto simp: emitted_at_def record_at_def)
  from f have "list_all2 (\<lambda>kv kp. fst kv = fst kp \<and> denotes h (snd kv) (snd kp)) kvs kps"
    by (rule list_all2_mono) (auto intro: denotes_extends [OF _ assms(2)])
  with d show ?thesis by (auto intro: denotes_Dict)
qed

lemma normalize_results_h_refines:
  assumes items: "denotes h items (PList ps)"
  shows "\<exists>out h'. normalize_results_h items h = Some (out, h') \<and> extends h h' \<and>
           (case normalize_results ps of
              Inl e \<Rightarrow> out = Inl e
            | Inr rs \<Rightarrow> (\<exists>v. out = Inr v \<and> denotes h' v (PList rs)))"
proof -
  let ?res = "length h"
  let ?h0 = "h @ [HList []]"
  from loop_h_run [OF items, of ?res ?h0 "[]" "[]" 0]
  obtain out h' where run: "loop_h items 0 ?res ?h0 = Some (out, h')"
    and st: "stable_except ?res ?h0 h'"
    and res: "case normalize_loop [] ps of
        Inl e \<Rightarrow> out = Inl e
      | Inr rs \<Rightarrow> out = Inr () \<and>
          (\<exists>ds'. h' ! ?res = HList ds' \<and> list_all2 (emitted_at h ?res h') ds' rs)"
    by auto
  from st have h': "extends h h'" "?res < length h'"
    by (auto simp: extends_nth stable_except_def nth_append)
  show ?thesis
  proof (cases "normalize_loop [] ps")
    case (Inl e)
    with res run h' show ?thesis
      by (simp add: normalize_results_h_def normalize_results_def bnd_def alloc_def)
  next
    case (Inr rs)
    with res obtain ds' where out: "out = Inr ()" and ds': "h' ! ?res = HList ds'"
      "list_all2 (emitted_at h ?res h') ds' rs"
      by auto
    from ds'(2) have "list_all2 (denotes h') ds' rs"
      by (rule list_all2_mono) (rule emitted_at_denotes [OF _ h'(1)])
    with h'(2) ds'(1) have "denotes h' (VRef ?res) (PList rs)"
      by (rule denotes_List)
    with Inr out run h' show ?thesis
      by (simp add: normalize_results_h_def normalize_results_def bnd_def alloc_def ret_def)
  qed
qed

section \<open>The claims about the normalizer\<close>



text \<open>
  C2. For every record that \<open>normalize_results\<close> emits, the \<open>channel\<close> is the ordered
  fallback: the non-empty artist names joined with a comma and a space when that string
  is not empty, else the \<open>artist\<close> field when it is present and non-empty, else the
  \<open>author\<close> field when it is present and non-empty, else \<^verbatim>\<open>"YouTube Music"\<close>.
\<close>

theorem channel_ordered_fallback:
  assumes "normalize_results items = Inr rs"
  shows "list_all2 (\<lambda>item r. field r ''channel'' = channel_fallback item)
           (filter has_video_id items) rs"
  using normalize_results_Inr [OF assms]
  by (rule list_all2_mono) (simp add: emitted_fields)

theorem channel_ordered_fallback_witness:
  "normalize_results [song_no_id, song_full, song_bare, song_solo, song_plain] =
     Inr [PDict [(''id'', PStr ''a1''), (''title'', PStr ''Song''),
                 (''channel'', PStr ''Artist X, Artist Y''),
                 (''thumbnailUrl'', PStr ''high.jpg'')],
          PDict [(''id'', PStr ''a4''), (''title'', PStr ''Unknown title''),
                 (''channel'', PStr ''Channel Name''), (''thumbnailUrl'', PNone)],
          PDict [(''id'', PStr ''a2''), (''title'', PStr ''Unknown title''),
                 (''channel'', PStr ''Solo Artist''), (''thumbnailUrl'', PNone)],
          PDict [(''id'', PStr ''a3''), (''title'', PStr ''Unknown title''),
                 (''channel'', PStr ''YouTube Music''), (''thumbnailUrl'', PNone)]] \<and>
   map channel_fallback [song_full, song_bare, song_solo, song_plain] =
     [PStr ''Artist X, Artist Y'', PStr ''Channel Name'', PStr ''Solo Artist'',
      PStr ''YouTube Music'']"
proof -
  have h: "normalize_results [song_no_id, song_full, song_bare, song_solo, song_plain] =
     Inr [PDict [(''id'', PStr ''a1''), (''title'', PStr ''Song''),
                 (''channel'', PStr ''Artist X, Artist Y''),
                 (''thumbnailUrl'', PStr ''high.jpg'')],
          PDict [(''id'', PStr ''a4''), (''title'', PStr ''Unknown title''),
                 (''channel'', PStr ''Channel Name''), (''thumbnailUrl'', PNone)],
          PDict [(''id'', PStr ''a2''), (''title'', PStr ''Unknown title''),
                 (''channel'', PStr ''Solo Artist''), (''thumbnailUrl'', PNone)],
          PDict [(''id'', PStr ''a3''), (''title'', PStr ''Unknown title''),
                 (''channel'', PStr ''YouTube Music''), (''thumbnailUrl'', PNone)]]"
    by (simp add: eval_defs)
  have f: "filter has_video_id [song_no_id, song_full, song_bare, song_solo, song_plain] =
      [song_full, song_bare, song_solo, song_plain]"
    by (simp add: eval_defs)
  from channel_ordered_fallback [OF h] have
    "channel_fallback song_full = PStr ''Artist X, Artist Y''"
    "channel_fallback song_bare = PStr ''Channel Name''"
    "channel_fallback song_solo = PStr ''Solo Artist''"
    "channel_fallback song_plain = PStr ''YouTube Music''"
    unfolding f by (simp_all add: field_def)
  with h show ?thesis by simp
qed

text \<open>
  C3. For every emitted record, \<open>thumbnailUrl\<close> is the \<open>url\<close> field of the last
  element of the raw record's \<open>thumbnails\<close> when that sequence is not empty, and
  \<^verbatim>\<open>None\<close> when \<open>thumbnails\<close> is absent or empty.
\<close>

theorem thumbnail_url_last:
  assumes "normalize_results items = Inr rs"
  shows "list_all2 (\<lambda>item r. field r ''thumbnailUrl'' =
             (if thumbnails_of item \<noteq> [] then field (last (thumbnails_of item)) ''url''
              else PNone))
           (filter has_video_id items) rs"
  using normalize_results_Inr [OF assms]
  by (rule list_all2_mono) (simp add: emitted_fields)

theorem thumbnail_url_last_witness:
  "normalize_results [song_full, song_plain] =
     Inr [PDict [(''id'', PStr ''a1''), (''title'', PStr ''Song''),
                 (''channel'', PStr ''Artist X, Artist Y''),
                 (''thumbnailUrl'', PStr ''high.jpg'')],
          PDict [(''id'', PStr ''a3''), (''title'', PStr ''Unknown title''),
                 (''channel'', PStr ''YouTube Music''), (''thumbnailUrl'', PNone)]] \<and>
   thumbnails_of song_full = [PDict [(''url'', PStr ''low.jpg'')],
                              PDict [(''url'', PStr ''high.jpg'')]] \<and>
   thumbnails_of song_plain = [] \<and>
   list_all2 (\<lambda>item r. field r ''thumbnailUrl'' =
       (if thumbnails_of item \<noteq> [] then field (last (thumbnails_of item)) ''url''
        else PNone))
     (filter has_video_id [song_full, song_plain])
     [PDict [(''id'', PStr ''a1''), (''title'', PStr ''Song''),
             (''channel'', PStr ''Artist X, Artist Y''),
             (''thumbnailUrl'', PStr ''high.jpg'')],
      PDict [(''id'', PStr ''a3''), (''title'', PStr ''Unknown title''),
             (''channel'', PStr ''YouTube Music''), (''thumbnailUrl'', PNone)]]"
proof -
  have h: "normalize_results [song_full, song_plain] =
     Inr [PDict [(''id'', PStr ''a1''), (''title'', PStr ''Song''),
                 (''channel'', PStr ''Artist X, Artist Y''),
                 (''thumbnailUrl'', PStr ''high.jpg'')],
          PDict [(''id'', PStr ''a3''), (''title'', PStr ''Unknown title''),
                 (''channel'', PStr ''YouTube Music''), (''thumbnailUrl'', PNone)]]"
    by (simp add: eval_defs)
  have t: "thumbnails_of song_full = [PDict [(''url'', PStr ''low.jpg'')],
                                     PDict [(''url'', PStr ''high.jpg'')]]"
    "thumbnails_of song_plain = []"
    by (simp_all add: eval_defs)
  from thumbnail_url_last [OF h] h t show ?thesis by blast
qed

text \<open>
  C4, as amended. For every emitted record, the output \<open>title\<close> is the raw title when
  that is truthy, and \<^verbatim>\<open>"Unknown title"\<close> when it is not: when the key is absent, or
  bound to \<^verbatim>\<open>None\<close>, the empty string, or any other falsy value such as \<open>0\<close>,
  \<^verbatim>\<open>False\<close>, an empty list or an empty dict. The source's line 13 is
  \<^verbatim>\<open>item.get("title") or "Unknown title"\<close>, a test of truthiness.
\<close>

theorem title_fallback:
  assumes "normalize_results items = Inr rs"
  shows "list_all2 (\<lambda>item r. field r ''title'' =
             (if truthy (field item ''title'') then field item ''title''
              else PStr ''Unknown title''))
           (filter has_video_id items) rs"
  using normalize_results_Inr [OF assms]
  by (rule list_all2_mono) (simp add: emitted_fields)

theorem title_fallback_witness:
  "normalize_results [song_full, song_bare, song_solo, song_zero_title] =
     Inr [PDict [(''id'', PStr ''a1''), (''title'', PStr ''Song''),
                 (''channel'', PStr ''Artist X, Artist Y''),
                 (''thumbnailUrl'', PStr ''high.jpg'')],
          PDict [(''id'', PStr ''a4''), (''title'', PStr ''Unknown title''),
                 (''channel'', PStr ''Channel Name''), (''thumbnailUrl'', PNone)],
          PDict [(''id'', PStr ''a2''), (''title'', PStr ''Unknown title''),
                 (''channel'', PStr ''Solo Artist''), (''thumbnailUrl'', PNone)],
          PDict [(''id'', PStr ''w''), (''title'', PStr ''Unknown title''),
                 (''channel'', PStr ''YouTube Music''), (''thumbnailUrl'', PNone)]] \<and>
   map (\<lambda>item. field item ''title'') [song_full, song_bare, song_solo, song_zero_title] =
     [PStr ''Song'', PNone, PStr [], PInt 0] \<and>
   list_all2 (\<lambda>item r. field r ''title'' =
       (if truthy (field item ''title'') then field item ''title''
        else PStr ''Unknown title''))
     (filter has_video_id [song_full, song_bare, song_solo, song_zero_title])
     [PDict [(''id'', PStr ''a1''), (''title'', PStr ''Song''),
             (''channel'', PStr ''Artist X, Artist Y''),
             (''thumbnailUrl'', PStr ''high.jpg'')],
      PDict [(''id'', PStr ''a4''), (''title'', PStr ''Unknown title''),
             (''channel'', PStr ''Channel Name''), (''thumbnailUrl'', PNone)],
      PDict [(''id'', PStr ''a2''), (''title'', PStr ''Unknown title''),
             (''channel'', PStr ''Solo Artist''), (''thumbnailUrl'', PNone)],
      PDict [(''id'', PStr ''w''), (''title'', PStr ''Unknown title''),
             (''channel'', PStr ''YouTube Music''), (''thumbnailUrl'', PNone)]]"
proof -
  have h: "normalize_results [song_full, song_bare, song_solo, song_zero_title] =
     Inr [PDict [(''id'', PStr ''a1''), (''title'', PStr ''Song''),
                 (''channel'', PStr ''Artist X, Artist Y''),
                 (''thumbnailUrl'', PStr ''high.jpg'')],
          PDict [(''id'', PStr ''a4''), (''title'', PStr ''Unknown title''),
                 (''channel'', PStr ''Channel Name''), (''thumbnailUrl'', PNone)],
          PDict [(''id'', PStr ''a2''), (''title'', PStr ''Unknown title''),
                 (''channel'', PStr ''Solo Artist''), (''thumbnailUrl'', PNone)],
          PDict [(''id'', PStr ''w''), (''title'', PStr ''Unknown title''),
                 (''channel'', PStr ''YouTube Music''), (''thumbnailUrl'', PNone)]]"
    by (simp add: eval_defs)
  have t: "map (\<lambda>item. field item ''title'') [song_full, song_bare, song_solo, song_zero_title] =
       [PStr ''Song'', PNone, PStr [], PInt 0]"
    by (simp add: eval_defs)
  from title_fallback [OF h] h t show ?thesis by blast
qed

text \<open>
  C4 as the specification states it, "\<^verbatim>\<open>"Unknown title"\<close> when the raw title is absent
  or an empty string, otherwise the raw title", fails on a title that is present, is not
  the empty string, and is falsy: the record \<^verbatim>\<open>{"videoId": "w", "title": 0}\<close> is
  emitted with the title \<^verbatim>\<open>"Unknown title"\<close>, not with its raw title \<open>0\<close>.
\<close>

theorem title_fallback_counterexample:
  "map_of [(''videoId'', PStr ''w''), (''title'', PInt 0)] ''title'' = Some (PInt 0) \<and>
   PInt 0 \<noteq> PStr [] \<and>
   normalize_results [PDict [(''videoId'', PStr ''w''), (''title'', PInt 0)]] =
     Inr [PDict [(''id'', PStr ''w''), (''title'', PStr ''Unknown title''),
                 (''channel'', PStr ''YouTube Music''), (''thumbnailUrl'', PNone)]] \<and>
   field (PDict [(''id'', PStr ''w''), (''title'', PStr ''Unknown title''),
                 (''channel'', PStr ''YouTube Music''), (''thumbnailUrl'', PNone)]) ''title'' \<noteq>
     field (PDict [(''videoId'', PStr ''w''), (''title'', PInt 0)]) ''title''"
  by (simp add: normalize_results_def normalize_item_def video_id_of_def channel_of_def
      thumbnail_url_of_def str_join_def py_or_def field_def)



text \<open>
  C10. When the fields of the raw records are strings where they are present, every
  record that \<open>normalize_results\<close> emits has exactly the keys \<open>id\<close>, \<open>title\<close>,
  \<open>channel\<close> and \<open>thumbnailUrl\<close>; its \<open>id\<close>, \<open>title\<close> and \<open>channel\<close> are non-empty
  strings, and only \<open>thumbnailUrl\<close> may be \<^verbatim>\<open>None\<close>.
\<close>

theorem emitted_records_normalized:
  assumes "list_all string_typed items" and "normalize_results items = Inr rs"
  shows "list_all normalized_record rs"
proof -
  from normalize_results_Inr [OF assms(2)]
  have "list_all2 (\<lambda>item r. string_typed item \<longrightarrow> normalized_record r)
          (filter has_video_id items) rs"
    by (rule list_all2_mono) (simp add: emitted_normalized)
  moreover from assms(1) have "list_all string_typed (filter has_video_id items)"
    by (simp add: list_all_iff)
  ultimately show ?thesis by (rule list_all2_list_all)
qed

theorem emitted_records_normalized_witness:
  "list_all string_typed [song_full, song_no_id, song_solo, song_plain] \<and>
   normalize_results [song_full, song_no_id, song_solo, song_plain] =
     Inr [PDict [(''id'', PStr ''a1''), (''title'', PStr ''Song''),
                 (''channel'', PStr ''Artist X, Artist Y''),
                 (''thumbnailUrl'', PStr ''high.jpg'')],
          PDict [(''id'', PStr ''a2''), (''title'', PStr ''Unknown title''),
                 (''channel'', PStr ''Solo Artist''), (''thumbnailUrl'', PNone)],
          PDict [(''id'', PStr ''a3''), (''title'', PStr ''Unknown title''),
                 (''channel'', PStr ''YouTube Music''), (''thumbnailUrl'', PNone)]] \<and>
   list_all normalized_record
     [PDict [(''id'', PStr ''a1''), (''title'', PStr ''Song''),
             (''channel'', PStr ''Artist X, Artist Y''),
             (''thumbnailUrl'', PStr ''high.jpg'')],
      PDict [(''id'', PStr ''a2''), (''title'', PStr ''Unknown title''),
             (''channel'', PStr ''Solo Artist''), (''thumbnailUrl'', PNone)],
      PDict [(''id'', PStr ''a3''), (''title'', PStr ''Unknown title''),
             (''channel'', PStr ''YouTube Music''), (''thumbnailUrl'', PNone)]]"
proof -
  have t: "list_all string_typed [song_full, song_no_id, song_solo, song_plain]"
    by (simp add: eval_defs)
  have h: "normalize_results [song_full, song_no_id, song_solo, song_plain] =
     Inr [PDict [(''id'', PStr ''a1''), (''title'', PStr ''Song''),
                 (''channel'', PStr ''Artist X, Artist Y''),
                 (''thumbnailUrl'', PStr ''high.jpg'')],
          PDict [(''id'', PStr ''a2''), (''title'', PStr ''Unknown title''),
                 (''channel'', PStr ''Solo Artist''), (''thumbnailUrl'', PNone)],
          PDict [(''id'', PStr ''a3''), (''title'', PStr ''Unknown title''),
                 (''channel'', PStr ''YouTube Music''), (''thumbnailUrl'', PNone)]]"
    by (simp add: eval_defs)
  from emitted_records_normalized [OF t h] t h show ?thesis by blast
qed

text \<open>
  C7. Reading the identifier once instead of twice changes nothing: on every input the
  normalizer with the single read returns what \<open>normalize_results\<close> returns, the
  exception included.
\<close>

theorem single_read_equivalent:
  "normalize_results_single_read items = normalize_results items"
  by (simp add: normalize_results_single_read_def normalize_results_def
      normalize_loop_single_read_eq)

section \<open>The claim about purity\<close>

text \<open>
  C6. \<open>normalize_results\<close> is deterministic and pure. In a store that holds the input
  list as a tree of JSON values, the call returns and changes no object that was in the
  store before it, the input records among them: the store it leaves extends the one it
  found. Its outcome is the outcome of the function on values, which the value of the
  input alone decides. So a second call on the same input, run in the store the first
  call left, raises the same exception or returns a list that holds the same value, and
  the list the first call returned still holds that value afterwards.
\<close>

theorem normalize_results_deterministic_pure:
  assumes "denotes h items (PList ps)"
  shows "\<exists>out1 h1 out2 h2.
           normalize_results_h items h = Some (out1, h1) \<and>
           normalize_results_h items h1 = Some (out2, h2) \<and>
           extends h h1 \<and> extends h h2 \<and>
           (case normalize_results ps of
              Inl e \<Rightarrow> out1 = Inl e \<and> out2 = Inl e
            | Inr rs \<Rightarrow> (\<exists>v1 v2. out1 = Inr v1 \<and> out2 = Inr v2 \<and>
                denotes h1 v1 (PList rs) \<and> denotes h2 v2 (PList rs) \<and>
                denotes h2 v1 (PList rs)))"
proof -
  from normalize_results_h_refines [OF assms] obtain out1 h1 where
    r1: "normalize_results_h items h = Some (out1, h1)" "extends h h1"
    "case normalize_results ps of
       Inl e \<Rightarrow> out1 = Inl e
     | Inr rs \<Rightarrow> (\<exists>v. out1 = Inr v \<and> denotes h1 v (PList rs))"
    by blast
  from assms r1(2) have "denotes h1 items (PList ps)" by (rule denotes_extends)
  from normalize_results_h_refines [OF this] obtain out2 h2 where
    r2: "normalize_results_h items h1 = Some (out2, h2)" "extends h1 h2"
    "case normalize_results ps of
       Inl e \<Rightarrow> out2 = Inl e
     | Inr rs \<Rightarrow> (\<exists>v. out2 = Inr v \<and> denotes h2 v (PList rs))"
    by blast
  from r1(2) r2(2) have "extends h h2" by (rule extends_trans)
  with r1 r2 show ?thesis
    by (cases "normalize_results ps") (auto intro: denotes_extends)
qed

theorem normalize_results_deterministic_pure_witness:
  "denotes heap_songs (VRef 0) (PList [song_plain, song_no_id, song_solo]) \<and>
   normalize_results [song_plain, song_no_id, song_solo] =
     Inr [PDict [(''id'', PStr ''a3''), (''title'', PStr ''Unknown title''),
                 (''channel'', PStr ''YouTube Music''), (''thumbnailUrl'', PNone)],
          PDict [(''id'', PStr ''a2''), (''title'', PStr ''Unknown title''),
                 (''channel'', PStr ''Solo Artist''), (''thumbnailUrl'', PNone)]] \<and>
   (\<exists>v1 h1 v2 h2.
      normalize_results_h (VRef 0) heap_songs = Some (Inr v1, h1) \<and>
      normalize_results_h (VRef 0) h1 = Some (Inr v2, h2) \<and>
      extends heap_songs h1 \<and> extends heap_songs h2 \<and>
      denotes h1 v1 (PList
        [PDict [(''id'', PStr ''a3''), (''title'', PStr ''Unknown title''),
                (''channel'', PStr ''YouTube Music''), (''thumbnailUrl'', PNone)],
         PDict [(''id'', PStr ''a2''), (''title'', PStr ''Unknown title''),
                (''channel'', PStr ''Solo Artist''), (''thumbnailUrl'', PNone)]]) \<and>
      denotes h2 v2 (PList
        [PDict [(''id'', PStr ''a3''), (''title'', PStr ''Unknown title''),
                (''channel'', PStr ''YouTube Music''), (''thumbnailUrl'', PNone)],
         PDict [(''id'', PStr ''a2''), (''title'', PStr ''Unknown title''),
                (''channel'', PStr ''Solo Artist''), (''thumbnailUrl'', PNone)]]))"
proof -
  have d: "denotes heap_songs (VRef 0) (PList [song_plain, song_no_id, song_solo])"
    by (simp add: heap_songs_def song_plain_def song_no_id_def song_solo_def denotes_simps)
  have n: "normalize_results [song_plain, song_no_id, song_solo] =
     Inr [PDict [(''id'', PStr ''a3''), (''title'', PStr ''Unknown title''),
                 (''channel'', PStr ''YouTube Music''), (''thumbnailUrl'', PNone)],
          PDict [(''id'', PStr ''a2''), (''title'', PStr ''Unknown title''),
                 (''channel'', PStr ''Solo Artist''), (''thumbnailUrl'', PNone)]]"
    by (simp add: eval_defs)
  from normalize_results_deterministic_pure [OF d] show ?thesis
    unfolding n using d by auto
qed

section \<open>The claims about the driver\<close>

text \<open>
  C5. Called with fewer than two positional arguments, the program prints the JSON
  object \<^verbatim>\<open>{"error": "Usage: ytmusic_search.py <query> <headers_path>"}\<close> and nothing
  else, makes no call to the search library, and exits with status 1.
\<close>

theorem main_usage_error:
  assumes "length (tl argv) < 2"
  shows "main YTMusic search argv =
           \<lparr>stdout = [PDict [(''error'',
               PStr ''Usage: ytmusic_search.py <query> <headers_path>'')]],
            calls = [],
            ending = SystemExit 1\<rparr> \<and>
         exit_status (ending (main YTMusic search argv)) = 1"
proof -
  from assms have "length argv < 3" by (cases argv) auto
  then show ?thesis by (simp add: main_def)
qed

theorem main_usage_error_witness:
  "length (tl [''ytmusic_search.py'', ''lofi'']) < 2 \<and>
   main (\<lambda>path. Inr ()) (\<lambda>client query filter limit. Inr [song_full])
       [''ytmusic_search.py'', ''lofi''] =
     \<lparr>stdout = [PDict [(''error'',
         PStr ''Usage: ytmusic_search.py <query> <headers_path>'')]],
      calls = [],
      ending = SystemExit 1\<rparr> \<and>
   exit_status (ending (main (\<lambda>path. Inr ()) (\<lambda>client query filter limit. Inr [song_full])
       [''ytmusic_search.py'', ''lofi''])) = 1"
proof -
  have h: "length (tl [''ytmusic_search.py'', ''lofi'']) < 2" by simp
  from main_usage_error [OF h] h show ?thesis by blast
qed

text \<open>
  C8. When the program runs to its end, it has built the client from the headers path,
  called the search with the query of the command line, the filter \<^verbatim>\<open>"songs"\<close> and
  the limit 8, and printed \<^verbatim>\<open>{"results": [...]}\<close> with the normalized records of what
  the search returned.
\<close>

theorem main_success_search_and_print:
  assumes "ending (main YTMusic search argv) = Returned"
  shows "\<exists>ytmusic items results.
           2 \<le> length (tl argv) \<and>
           YTMusic (argv ! 2) = Inr ytmusic \<and>
           search ytmusic (argv ! 1) ''songs'' 8 = Inr items \<and>
           normalize_results items = Inr results \<and>
           calls (main YTMusic search argv) =
             [YTMusic_call (argv ! 2), search_call (argv ! 1) ''songs'' 8] \<and>
           stdout (main YTMusic search argv) = [PDict [(''results'', PList results)]] \<and>
           exit_status (ending (main YTMusic search argv)) = 0"
proof -
  from assms have len: "\<not> length argv < 3"
    by (auto simp: main_def)
  with assms obtain ytmusic where y: "YTMusic (argv ! 2) = Inr ytmusic"
    by (cases "YTMusic (argv ! 2)") (auto simp: main_def)
  with assms len obtain items where s: "search ytmusic (argv ! 1) ''songs'' 8 = Inr items"
    by (cases "search ytmusic (argv ! 1) ''songs'' 8") (auto simp: main_def)
  with assms len y obtain results where n: "normalize_results items = Inr results"
    by (cases "normalize_results items") (auto simp: main_def)
  from len have "2 \<le> length (tl argv)" by simp
  with len y s n show ?thesis by (simp add: main_def)
qed

theorem main_success_search_and_print_witness:
  "ending (main (\<lambda>path. if path = ''headers.json'' then Inr () else Inl CollaboratorError)
       (\<lambda>client query filter limit.
          if query = ''lofi'' \<and> filter = ''songs'' \<and> limit = 8
          then Inr [song_no_id, song_plain] else Inl CollaboratorError)
       [''ytmusic_search.py'', ''lofi'', ''headers.json'']) = Returned \<and>
   calls (main (\<lambda>path. if path = ''headers.json'' then Inr () else Inl CollaboratorError)
       (\<lambda>client query filter limit.
          if query = ''lofi'' \<and> filter = ''songs'' \<and> limit = 8
          then Inr [song_no_id, song_plain] else Inl CollaboratorError)
       [''ytmusic_search.py'', ''lofi'', ''headers.json'']) =
     [YTMusic_call ''headers.json'', search_call ''lofi'' ''songs'' 8] \<and>
   stdout (main (\<lambda>path. if path = ''headers.json'' then Inr () else Inl CollaboratorError)
       (\<lambda>client query filter limit.
          if query = ''lofi'' \<and> filter = ''songs'' \<and> limit = 8
          then Inr [song_no_id, song_plain] else Inl CollaboratorError)
       [''ytmusic_search.py'', ''lofi'', ''headers.json'']) =
     [PDict [(''results'', PList
        [PDict [(''id'', PStr ''a3''), (''title'', PStr ''Unknown title''),
                (''channel'', PStr ''YouTube Music''), (''thumbnailUrl'', PNone)]])]]"
proof -
  have n: "normalize_results [song_no_id, song_plain] =
      Inr [PDict [(''id'', PStr ''a3''), (''title'', PStr ''Unknown title''),
                  (''channel'', PStr ''YouTube Music''), (''thumbnailUrl'', PNone)]]"
    by (simp add: eval_defs)
  have h: "ending (main (\<lambda>path. if path = ''headers.json'' then Inr () else Inl CollaboratorError)
       (\<lambda>client query filter limit.
          if query = ''lofi'' \<and> filter = ''songs'' \<and> limit = 8
          then Inr [song_no_id, song_plain] else Inl CollaboratorError)
       [''ytmusic_search.py'', ''lofi'', ''headers.json'']) = Returned"
    by (simp add: main_def n)
  from main_success_search_and_print [OF h] h n show ?thesis
    by auto
qed

end
